theory Spec2Isabelle
  imports Complex_Main
begin

section \<open>Data model (src/lib/types.ts, database.sql)\<close>

text \<open>
  Conventions of the embedding.
  \<^item> A JavaScript \<open>number\<close> that holds a count or an id is an \<open>int\<close> or a \<open>nat\<close>; below
    \<open>2 ^ 53\<close> it is a double without rounding, and the length of an array is below \<open>2 ^ 32\<close>.
    One that holds a measurement or a ratio is the rational number that the double is,
    and the arithmetic on it rounds as IEEE 754 prescribes (section on numbers and dates).
    The infinities are outside the model; where a function can yield \<open>NaN\<close> or an infinity,
    its result is an \<open>option\<close>.
  \<^item> An optional field (\<open>title?: string\<close>, a nullable column) is an \<open>option\<close>; \<open>None\<close> stands
    for both \<open>undefined\<close> and SQL \<open>NULL\<close>. Where the code tells the two apart
    (\<open>isValidCoordinates\<close>), the model has a type of values.
  \<^item> A point in time is the number of milliseconds since the epoch, as \<open>Date.getTime()\<close>
    gives it; a \<open>Date\<close> holds one of at most 8.64e15 in magnitude or is invalid. The
    \<open>timestamp\<close> of a click event is the text that the store wrote with \<open>datetime('now')\<close>:
    the UTC date and time to the second, with no zone. The model writes that text as the
    instant it denotes in UTC. \<open>new Date(click.timestamp)\<close> reads it as local time; which
    instant that is, the platform says (\<open>parseDate\<close>: the same instant on a host in UTC),
    and it is a valid date. A function reads the clock once: the time of the call is its
    argument \<open>now\<close>.
  \<^item> A table is the list of its rows in insertion order. The foreign key of \<open>clicks\<close> is
    enforced, as the store's driver sets it up.
\<close>

record TrackingLink =
  id_link :: int
  short_code :: string
  original_url :: string
  title :: "string option"
  description :: "string option"
  created_at :: int
  updated_at :: int
  clicks :: int
  active :: bool

text \<open>\<open>Omit<ClickEvent, 'id' | 'link_id' | 'timestamp'>\<close>, the argument of \<open>recordClick\<close>.\<close>

record ClickData =
  ip_address :: string
  user_agent :: "string option"
  referer :: "string option"
  country :: "string option"
  country_code :: "string option"
  region :: "string option"
  city :: "string option"
  latitude :: "rat option"
  longitude :: "rat option"
  timezone :: "string option"
  isp :: "string option"

record ClickEvent = ClickData +
  id_click :: int
  link_id :: int
  timestamp :: int

record CreateLinkRequest =
  original_url_req :: string
  title_req :: "string option"
  description_req :: "string option"
  custom_code :: "string option"

record UpdateLinkRequest =
  title_upd :: "string option"
  description_upd :: "string option"
  active_upd :: "bool option"

text \<open>
  The store: the two tables of database.sql and, for each, the largest row id handed out
  so far (\<open>AUTOINCREMENT\<close> never reuses an id).
\<close>

record database =
  links :: "TrackingLink list"
  clicks_tbl :: "ClickEvent list"
  links_seq :: int
  clicks_seq :: int

text \<open>
  What a statement can throw: the error \<open>createLink\<close> raises itself, and the two
  constraints of the schema (\<open>short_code TEXT UNIQUE\<close>, the foreign key of \<open>clicks\<close>).
\<close>

datatype db_error = CustomCodeExists | UniqueConstraintFailed | ForeignKeyFailed

section \<open>Store operations (src/lib/types.ts, second part: the database utilities)\<close>

text \<open>\<open>x || null\<close> on an optional string: the empty string is falsy.\<close>

definition or_null :: "string option \<Rightarrow> string option" where
  "or_null s = (case s of None \<Rightarrow> None | Some v \<Rightarrow> if v = [] then None else Some v)"

text \<open>\<open>x || null\<close> on an optional number: zero is falsy.\<close>

definition or_null_num :: "rat option \<Rightarrow> rat option" where
  "or_null_num x = (case x of None \<Rightarrow> None | Some v \<Rightarrow> if v = 0 then None else Some v)"

text \<open>\<open>datetime('now')\<close> has a resolution of one second.\<close>

definition datetime_now :: "int \<Rightarrow> int" where
  "datetime_now now = (now div 1000) * 1000"

text \<open>\<open>SELECT * FROM links WHERE short_code = ? AND active = 1\<close>\<close>

definition getLinkByCode :: "database \<Rightarrow> string \<Rightarrow> TrackingLink option" where
  "getLinkByCode db shortCode =
     find (\<lambda>l. short_code l = shortCode \<and> active l) (links db)"

text \<open>\<open>SELECT * FROM links WHERE id = ?\<close>\<close>

definition getLinkById :: "database \<Rightarrow> int \<Rightarrow> TrackingLink option" where
  "getLinkById db i = find (\<lambda>l. id_link l = i) (links db)"

text \<open>
  \<open>generateShortCode\<close>: \<open>length\<close> characters of the 62-letter alphabet, each chosen by
  \<open>Math.floor(Math.random() * chars.length)\<close>. The successive values of \<open>Math.random()\<close>
  are an argument; \<open>charAt\<close> out of range is the empty string.
\<close>

definition chars :: string where
  "chars = ''ABCDEFGHIJKLMNOPQRSTUVWXYZabcdefghijklmnopqrstuvwxyz0123456789''"

definition charAt :: "string \<Rightarrow> int \<Rightarrow> string" where
  "charAt s i = (if 0 \<le> i \<and> i < int (length s) then [s ! nat i] else [])"

definition generateShortCode :: "rat list \<Rightarrow> string" where
  "generateShortCode rnd =
     concat (map (\<lambda>r. charAt chars \<lfloor>r * of_nat (length chars)\<rfloor>) rnd)"

text \<open>
  The \<open>do ... while (getLinkByCode(shortCode))\<close> loop of \<open>createLink\<close>. Each round takes
  eight random values; the list of random values is the fuel, and \<open>None\<close> says that the
  loop has not ended when they are used up.
\<close>

function generate_unique :: "rat list \<Rightarrow> database \<Rightarrow> string option" where
  "generate_unique rnd db =
     (if length rnd < 8 then None
      else let shortCode = generateShortCode (take 8 rnd) in
        if getLinkByCode db shortCode \<noteq> None then generate_unique (drop 8 rnd) db
        else Some shortCode)"
  by pat_completeness auto
termination
  by (relation "measure (\<lambda>(rnd, db). length rnd)") auto

declare generate_unique.simps [simp del]

text \<open>
  \<open>INSERT INTO links (short_code, original_url, title, description, created_at, updated_at)\<close>:
  the \<open>UNIQUE\<close> constraint on \<open>short_code\<close> looks at every row, active or not; \<open>clicks\<close>
  and \<open>active\<close> take their defaults 0 and 1.
\<close>

definition insert_link ::
  "int \<Rightarrow> string \<Rightarrow> string \<Rightarrow> string option \<Rightarrow> string option \<Rightarrow> database
     \<Rightarrow> db_error + (TrackingLink \<times> database)" where
  "insert_link now shortCode url t d db =
     (if shortCode \<in> set (map short_code (links db)) then Inl UniqueConstraintFailed
      else let newLink = \<lparr> id_link = links_seq db + 1, short_code = shortCode,
                 original_url = url, title = t, description = d,
                 created_at = datetime_now now, updated_at = datetime_now now,
                 clicks = 0, active = True \<rparr>
           in Inr (newLink, db\<lparr> links := links db @ [newLink], links_seq := links_seq db + 1 \<rparr>))"

text \<open>
  \<open>createLink\<close>. A custom code that is absent or empty is falsy, so a code is generated.
  The result is \<open>None\<close> when the generation loop has not ended, \<open>Some (Inl e)\<close> when the
  call throws, \<open>Some (Inr (link, db'))\<close> when it returns.
\<close>

definition createLink ::
  "rat list \<Rightarrow> int \<Rightarrow> CreateLinkRequest \<Rightarrow> database
     \<Rightarrow> (db_error + (TrackingLink \<times> database)) option" where
  "createLink rnd now data db =
     (case or_null (custom_code data) of
        None \<Rightarrow>
          (case generate_unique rnd db of
             None \<Rightarrow> None
           | Some shortCode \<Rightarrow>
               Some (insert_link now shortCode (original_url_req data)
                       (or_null (title_req data)) (or_null (description_req data)) db))
      | Some shortCode \<Rightarrow>
          if getLinkByCode db shortCode \<noteq> None then Some (Inl CustomCodeExists)
          else Some (insert_link now shortCode (original_url_req data)
                       (or_null (title_req data)) (or_null (description_req data)) db))"

text \<open>
  \<open>updateLink\<close> collects one assignment per field that is present, and runs
  \<open>UPDATE links SET ..., updated_at = datetime('now') WHERE id = ?\<close> when there is one.
\<close>

definition updateLink ::
  "int \<Rightarrow> int \<Rightarrow> UpdateLinkRequest \<Rightarrow> database \<Rightarrow> TrackingLink option \<times> database" where
  "updateLink now i data db =
     (let updates =
            (case title_upd data of None \<Rightarrow> [] | Some t \<Rightarrow> [\<lambda>l. l\<lparr> title := Some t \<rparr>])
          @ (case description_upd data of None \<Rightarrow> []
               | Some d \<Rightarrow> [\<lambda>l. l\<lparr> description := Some d \<rparr>])
          @ (case active_upd data of None \<Rightarrow> [] | Some a \<Rightarrow> [\<lambda>l. l\<lparr> active := a \<rparr>])
      in if length updates = 0 then (getLinkById db i, db)
         else let updates' = updates @ [\<lambda>l. l\<lparr> updated_at := datetime_now now \<rparr>];
                  db' = db\<lparr> links := map (\<lambda>l. if id_link l = i then fold (\<lambda>u. u) updates' l
                                                 else l) (links db) \<rparr>
              in (getLinkById db' i, db'))"

text \<open>
  \<open>DELETE FROM links WHERE id = ?\<close>, with \<open>ON DELETE CASCADE\<close> on the clicks of the link;
  the result says whether a row went.
\<close>

definition deleteLink :: "int \<Rightarrow> database \<Rightarrow> bool \<times> database" where
  "deleteLink i db =
     (length (filter (\<lambda>l. id_link l = i) (links db)) > 0,
      db\<lparr> links := filter (\<lambda>l. id_link l \<noteq> i) (links db),
          clicks_tbl := filter (\<lambda>c. link_id c \<noteq> i) (clicks_tbl db) \<rparr>)"

text \<open>
  \<open>recordClick\<close>: insert the click (every optional field through \<open>|| null\<close>), then
  \<open>UPDATE links SET clicks = clicks + 1 WHERE id = ?\<close>, then read the new row back.
  The foreign key refuses a click for a link that does not exist.
\<close>

definition recordClick ::
  "int \<Rightarrow> int \<Rightarrow> ClickData \<Rightarrow> database \<Rightarrow> db_error + (ClickEvent \<times> database)" where
  "recordClick now linkId clickData db =
     (if getLinkById db linkId = None then Inl ForeignKeyFailed
      else let clickRecord = \<lparr> ip_address = ip_address clickData,
                 user_agent = or_null (user_agent clickData),
                 referer = or_null (referer clickData),
                 country = or_null (country clickData),
                 country_code = or_null (country_code clickData),
                 region = or_null (region clickData),
                 city = or_null (city clickData),
                 latitude = or_null_num (latitude clickData),
                 longitude = or_null_num (longitude clickData),
                 timezone = or_null (timezone clickData),
                 isp = or_null (isp clickData),
                 id_click = clicks_seq db + 1, link_id = linkId,
                 timestamp = datetime_now now \<rparr>
           in Inr (clickRecord,
                   db\<lparr> clicks_tbl := clicks_tbl db @ [clickRecord],
                       clicks_seq := clicks_seq db + 1,
                       links := map (\<lambda>l. if id_link l = linkId then l\<lparr> clicks := clicks l + 1 \<rparr>
                                          else l) (links db) \<rparr>))"

section \<open>Geolocation (src/lib/geolocation.ts)\<close>

text \<open>
  \<open>GeolocationData\<close> is also the shape of the JSON body of the primary provider, ip-api.com.
\<close>

record GeolocationData =
  country_geo :: "string option"
  countryCode :: "string option"
  region_geo :: "string option"
  regionName :: "string option"
  city_geo :: "string option"
  zip_geo :: "string option"
  lat :: "rat option"
  lon :: "rat option"
  timezone_geo :: "string option"
  isp_geo :: "string option"
  org :: "string option"
  as_geo :: "string option"
  query :: "string option"
  status :: "string option"
  message :: "string option"

text \<open>The JSON body of the secondary provider, ipapi.co; \<open>error_j\<close> is the truth of \<open>data.error\<close>.\<close>

record ipapi_co_json =
  error_j :: bool
  country_name_j :: "string option"
  country_code_j :: "string option"
  region_j :: "string option"
  city_j :: "string option"
  latitude_j :: "rat option"
  longitude_j :: "rat option"
  timezone_j :: "string option"
  org_j :: "string option"

text \<open>
  An external call either throws (transport error, timeout after 10 s, a status that is
  not ok, a body that is not JSON) or delivers a body. The two providers are arguments
  of the model, and every call made is written to a log.
\<close>

datatype 'a fetched = Threw | Body 'a

datatype provider = IpApiCom | IpapiCo

record providers =
  primary :: "string \<Rightarrow> GeolocationData fetched"
  secondary :: "string \<Rightarrow> ipapi_co_json fetched"

type_synonym call_log = "(provider \<times> string) list"

subsection \<open>Strings\<close>

text \<open>
  A string is a list of characters below U+0100. \<open>isWhiteSpace\<close> is the white space that
  \<open>trim\<close> and \<open>parseInt\<close> skip, as far as it lies in that range.
\<close>

definition isWhiteSpace :: "char \<Rightarrow> bool" where
  "isWhiteSpace c = (of_char c \<in> {9, 10, 11, 12, 13, 32, 160 :: nat})"

definition trim :: "string \<Rightarrow> string" where
  "trim s = rev (dropWhile isWhiteSpace (rev (dropWhile isWhiteSpace s)))"

text \<open>\<open>s.split(d)\<close> for a separator of one character.\<close>

fun split_on :: "char \<Rightarrow> string \<Rightarrow> string list" where
  "split_on d [] = [[]]"
| "split_on d (c # cs) =
     (if c = d then [] # split_on d cs
      else case split_on d cs of [] \<Rightarrow> [[c]] | p # ps \<Rightarrow> (c # p) # ps)"

text \<open>The value of a character as a digit, for radix 10 and 16.\<close>

definition digit_value :: "char \<Rightarrow> nat option" where
  "digit_value c =
     (let n = of_char c :: nat in
      if 48 \<le> n \<and> n \<le> 57 then Some (n - 48)
      else if 97 \<le> n \<and> n \<le> 102 then Some (n - 87)
      else if 65 \<le> n \<and> n \<le> 70 then Some (n - 55)
      else None)"

definition is_digit :: "nat \<Rightarrow> char \<Rightarrow> bool" where
  "is_digit radix c = (case digit_value c of None \<Rightarrow> False | Some v \<Rightarrow> v < radix)"

definition digits_value :: "nat \<Rightarrow> string \<Rightarrow> nat" where
  "digits_value radix ds = foldl (\<lambda>a c. a * radix + (case digit_value c of None \<Rightarrow> 0 | Some v \<Rightarrow> v)) 0 ds"

text \<open>
  \<open>parseInt(s)\<close> with no radix: skip white space, read a sign, read \<open>0x\<close> or \<open>0X\<close> as the
  mark of radix 16, and convert the longest run of digits; \<open>None\<close> is \<open>NaN\<close>.
\<close>

definition parseInt :: "string \<Rightarrow> int option" where
  "parseInt s =
     (let s1 = dropWhile isWhiteSpace s;
          sign = (if take 1 s1 = ''-'' then - 1 else 1 :: int);
          s2 = (if take 1 s1 = ''-'' \<or> take 1 s1 = ''+'' then drop 1 s1 else s1);
          radix = (if take 2 s2 = ''0x'' \<or> take 2 s2 = ''0X'' then 16 else 10 :: nat);
          s3 = (if radix = 16 then drop 2 s2 else s2);
          ds = takeWhile (is_digit radix) s3
      in if ds = [] then None else Some (sign * int (digits_value radix ds)))"

text \<open>\<open>ip.replace(/^::ffff:/, '')\<close>\<close>

definition strip_mapped_prefix :: "string \<Rightarrow> string" where
  "strip_mapped_prefix ip = (if take 7 ip = ''::ffff:'' then drop 7 ip else ip)"

text \<open>A comparison with \<open>NaN\<close> is false.\<close>

definition num_eq :: "int option \<Rightarrow> int \<Rightarrow> bool" where
  "num_eq x n = (case x of None \<Rightarrow> False | Some v \<Rightarrow> v = n)"

definition num_between :: "int option \<Rightarrow> int \<Rightarrow> int \<Rightarrow> bool" where
  "num_between x lo hi = (case x of None \<Rightarrow> False | Some v \<Rightarrow> lo \<le> v \<and> v \<le> hi)"

definition isPrivateIP :: "string \<Rightarrow> bool" where
  "isPrivateIP ip =
     (let cleanIP = strip_mapped_prefix ip in
      if cleanIP = ''127.0.0.1'' \<or> cleanIP = ''::1'' \<or> cleanIP = ''localhost'' then True
      else let parts = split_on (CHR ''.'') cleanIP in
        if length parts = 4 then
          (let first = parseInt (parts ! 0); second = parseInt (parts ! 1) in
           if num_eq first 10 then True
           else if num_eq first 172 \<and> num_between second 16 31 then True
           else if num_eq first 192 \<and> num_eq second 168 then True
           else if num_eq first 169 \<and> num_eq second 254 then True
           else False)
        else False)"

subsection \<open>The sentinel results\<close>

definition getFallbackLocation :: GeolocationData where
  "getFallbackLocation =
     \<lparr> country_geo = Some ''Unknown'', countryCode = Some ''XX'', region_geo = Some ''Unknown'',
       regionName = None, city_geo = Some ''Unknown'', zip_geo = None,
       lat = Some 0, lon = Some 0, timezone_geo = Some ''Unknown'', isp_geo = Some ''Unknown'',
       org = None, as_geo = None, query = None, status = Some ''unknown'', message = None \<rparr>"

text \<open>The object that \<open>getLocationFromIP\<close> returns for a private address.\<close>

definition private_ip_location :: GeolocationData where
  "private_ip_location =
     \<lparr> country_geo = Some ''Unknown'', countryCode = Some ''XX'', region_geo = Some ''Unknown'',
       regionName = None, city_geo = Some ''Unknown'', zip_geo = None,
       lat = Some 0, lon = Some 0, timezone_geo = Some ''Unknown'', isp_geo = Some ''Unknown'',
       org = None, as_geo = None, query = None, status = Some ''private_ip'', message = None \<rparr>"

subsection \<open>The two providers\<close>

definition getLocationFromIP ::
  "providers \<Rightarrow> string \<Rightarrow> call_log \<Rightarrow> GeolocationData \<times> call_log" where
  "getLocationFromIP env ipAddress made =
     (if isPrivateIP ipAddress then (private_ip_location, made)
      else case primary env ipAddress of
        Threw \<Rightarrow> (getFallbackLocation, made @ [(IpApiCom, ipAddress)])
      | Body data \<Rightarrow>
          if status data = Some ''fail''
          then (getFallbackLocation, made @ [(IpApiCom, ipAddress)])
          else (\<lparr> country_geo = country_geo data, countryCode = countryCode data,
                  region_geo = regionName data, regionName = None, city_geo = city_geo data,
                  zip_geo = None, lat = lat data, lon = lon data,
                  timezone_geo = timezone_geo data, isp_geo = isp_geo data, org = org data,
                  as_geo = None, query = query data, status = status data, message = None \<rparr>,
                made @ [(IpApiCom, ipAddress)]))"

definition getLocationFromIPFallback ::
  "providers \<Rightarrow> string \<Rightarrow> call_log \<Rightarrow> GeolocationData \<times> call_log" where
  "getLocationFromIPFallback env ipAddress made =
     (if isPrivateIP ipAddress then (getFallbackLocation, made)
      else case secondary env ipAddress of
        Threw \<Rightarrow> (getFallbackLocation, made @ [(IpapiCo, ipAddress)])
      | Body data \<Rightarrow>
          if error_j data then (getFallbackLocation, made @ [(IpapiCo, ipAddress)])
          else (\<lparr> country_geo = country_name_j data, countryCode = country_code_j data,
                  region_geo = region_j data, regionName = None, city_geo = city_j data,
                  zip_geo = None, lat = latitude_j data, lon = longitude_j data,
                  timezone_geo = timezone_j data, isp_geo = org_j data, org = None,
                  as_geo = None, query = None, status = Some ''success'', message = None \<rparr>,
                made @ [(IpapiCo, ipAddress)]))"

subsection \<open>The call budget\<close>

record GeolocationRateLimit =
  calls :: nat
  resetTime :: int

definition maxCalls :: nat where
  "maxCalls = 900"

text \<open>\<open>canMakeCall\<close> resets the counter once the hour has passed, and answers.\<close>

definition canMakeCall :: "int \<Rightarrow> GeolocationRateLimit \<Rightarrow> bool \<times> GeolocationRateLimit" where
  "canMakeCall now rl =
     (let rl' = (if now > resetTime rl
                 then rl\<lparr> calls := 0, resetTime := now + 60 * 60 * 1000 \<rparr> else rl)
      in (calls rl' < maxCalls, rl'))"

definition recordCall :: "GeolocationRateLimit \<Rightarrow> GeolocationRateLimit" where
  "recordCall rl = rl\<lparr> calls := calls rl + 1 \<rparr>"

text \<open>The state of the resolver: the global \<open>rateLimiter\<close> and the log of external calls.\<close>

record geo_state =
  rateLimiter :: GeolocationRateLimit
  external_calls :: call_log

definition getLocationWithFallback ::
  "providers \<Rightarrow> int \<Rightarrow> string \<Rightarrow> geo_state \<Rightarrow> GeolocationData \<times> geo_state" where
  "getLocationWithFallback env now ipAddress st =
     (case canMakeCall now (rateLimiter st) of
        (False, rl) \<Rightarrow> (getFallbackLocation, st\<lparr> rateLimiter := rl \<rparr>)
      | (True, rl) \<Rightarrow>
          let rl' = recordCall rl;
              (location, made) = getLocationFromIP env ipAddress (external_calls st)
          in if status location = Some ''unknown''
             then let (location', made') = getLocationFromIPFallback env ipAddress made
                  in (location', \<lparr> rateLimiter = rl', external_calls = made' \<rparr>)
             else (location, \<lparr> rateLimiter = rl', external_calls = made \<rparr>))"

text \<open>
  \<open>isValidCoordinates(lat?, lon?)\<close>. At run time an argument is \<open>undefined\<close>, \<open>null\<close> (a
  column that is \<open>NULL\<close>), \<open>NaN\<close>, an infinity or a finite number. The comparisons \<open>>=\<close>
  and \<open><=\<close> convert \<open>null\<close> to 0 and \<open>undefined\<close> to \<open>NaN\<close>, and are false on \<open>NaN\<close>; \<open>!==\<close>
  converts nothing, and the two zeros are the one number 0.
\<close>

datatype js_value = Undefined | Null | NaN | PlusInfinity | MinusInfinity | Number rat

fun ge_num :: "js_value \<Rightarrow> rat \<Rightarrow> bool" where
  "ge_num Undefined c = False"
| "ge_num Null c = (0 \<ge> c)"
| "ge_num NaN c = False"
| "ge_num PlusInfinity c = True"
| "ge_num MinusInfinity c = False"
| "ge_num (Number x) c = (x \<ge> c)"

fun le_num :: "js_value \<Rightarrow> rat \<Rightarrow> bool" where
  "le_num Undefined c = False"
| "le_num Null c = (0 \<le> c)"
| "le_num NaN c = False"
| "le_num PlusInfinity c = False"
| "le_num MinusInfinity c = True"
| "le_num (Number x) c = (x \<le> c)"

definition isValidCoordinates :: "js_value \<Rightarrow> js_value \<Rightarrow> bool" where
  "isValidCoordinates la lo =
     (la \<noteq> Undefined \<and>
      lo \<noteq> Undefined \<and>
      ge_num la (- 90) \<and>
      le_num la 90 \<and>
      ge_num lo (- 180) \<and>
      le_num lo 180 \<and>
      la \<noteq> Number 0 \<and>
      lo \<noteq> Number 0)"

text \<open>
  \<open>getClientIP\<close>: the headers of the request are a function from the lower-case header
  name; an empty header value is falsy.
\<close>

definition getClientIP :: "(string \<Rightarrow> string option) \<Rightarrow> string" where
  "getClientIP headers =
     (case or_null (headers ''x-forwarded-for'') of
        Some xForwardedFor \<Rightarrow> trim (hd (split_on (CHR '','') xForwardedFor))
      | None \<Rightarrow>
     (case or_null (headers ''x-real-ip'') of
        Some xRealIP \<Rightarrow> xRealIP
      | None \<Rightarrow>
     (case or_null (headers ''cf-connecting-ip'') of
        Some cfConnectingIP \<Rightarrow> cfConnectingIP
      | None \<Rightarrow>
     (case or_null (headers ''x-client-ip'') of
        Some xClientIP \<Rightarrow> xClientIP
      | None \<Rightarrow> ''127.0.0.1''))))"

section \<open>JavaScript numbers and dates\<close>

subsection \<open>Doubles\<close>

text \<open>
  A finite double is a rational number, and \<open>double x\<close> is the double nearest to the
  rational \<open>x\<close>, a tie going to the even significand. With \<open>2 powi e \<le> \<bar>x\<bar> < 2 powi (e + 1)\<close>
  the doubles around \<open>x\<close> are the multiples of \<open>2 powi (e - 52)\<close> (a significand of 53
  bits), and those of \<open>2 powi (- 1074)\<close> below the normal range. \<open>ilog2 x\<close> is that
  exponent \<open>e\<close>, found by halving or doubling \<open>x\<close>. A result beyond the largest double
  would be an infinity; no such number arises from the counts and times below.
\<close>

function lg_up :: "rat \<Rightarrow> int" where
  "lg_up x = (if 2 \<le> x then lg_up (x / 2) + 1 else 0)"
  by pat_completeness auto
termination
proof (relation "measure (\<lambda>x. nat \<lfloor>x\<rfloor>)")
  show "wf (measure (\<lambda>x::rat. nat \<lfloor>x\<rfloor>))" by simp
  fix x :: rat assume x: "2 \<le> x"
  have "\<lfloor>x / 2\<rfloor> < \<lfloor>x\<rfloor>"
  proof -
    have "x / 2 < of_int \<lfloor>x\<rfloor>"
    proof -
      have "x < of_int \<lfloor>x\<rfloor> + 1" by linarith
      moreover have "(2::rat) \<le> of_int \<lfloor>x\<rfloor>" using x by (simp add: le_floor_iff)
      ultimately show ?thesis by linarith
    qed
    then show ?thesis by (simp add: floor_less_iff)
  qed
  moreover have "0 < \<lfloor>x\<rfloor>" using x by (simp add: less_floor_iff)
  ultimately show "(x / 2, x) \<in> measure (\<lambda>x. nat \<lfloor>x\<rfloor>)" by simp
qed

declare lg_up.simps [simp del]

function lg_down :: "rat \<Rightarrow> int" where
  "lg_down x = (if 0 < x \<and> x < 1 then lg_down (x * 2) - 1 else 0)"
  by pat_completeness auto
termination
proof (relation "measure (\<lambda>x. nat \<lceil>1 / x\<rceil>)")
  show "wf (measure (\<lambda>x::rat. nat \<lceil>1 / x\<rceil>))" by simp
  fix x :: rat assume x: "0 < x \<and> x < 1"
  then have y: "1 < 1 / x" by simp
  have "\<lceil>1 / (x * 2)\<rceil> < \<lceil>1 / x\<rceil>"
  proof -
    define y where "y = 1 / x"
    define c where "c = \<lceil>y\<rceil>"
    have "1 < y" using y by (simp add: y_def)
    then have "2 \<le> c" unfolding c_def by (simp add: less_ceiling_iff)
    then have c2: "(2::rat) \<le> of_int c" by linarith
    have "y \<le> of_int c" unfolding c_def by linarith
    with c2 have "y / 2 \<le> of_int (c - 1)" by simp
    then have "\<lceil>y / 2\<rceil> \<le> c - 1" by (simp only: ceiling_le_iff)
    then have less: "\<lceil>y / 2\<rceil> < c" by linarith
    have eq: "1 / (x * 2) = y / 2" by (simp add: y_def)
    from less have "\<lceil>1 / (x * 2)\<rceil> < c" by (simp only: eq)
    then show ?thesis by (simp only: c_def y_def)
  qed
  moreover have "0 < \<lceil>1 / x\<rceil>" using x by (simp add: less_ceiling_iff)
  ultimately show "(x * 2, x) \<in> measure (\<lambda>x. nat \<lceil>1 / x\<rceil>)" by simp
qed

declare lg_down.simps [simp del]

definition ilog2 :: "rat \<Rightarrow> int" where
  "ilog2 x = (if 1 \<le> x then lg_up x else lg_down x)"

text \<open>The integer nearest to \<open>r\<close>; of the two nearest to a half, the even one.\<close>

definition round_even :: "rat \<Rightarrow> int" where
  "round_even r =
     (let f = \<lfloor>r\<rfloor>; d = r - of_int f in
      if d < 1 / 2 then f else if 1 / 2 < d then f + 1 else if even f then f else f + 1)"

text \<open>The distance of the doubles around \<open>x\<close>.\<close>

definition ulp :: "rat \<Rightarrow> rat" where
  "ulp x = 2 powi (max (ilog2 \<bar>x\<bar> - 52) (- 1074))"

definition double :: "rat \<Rightarrow> rat" where
  "double x = (if x = 0 then 0 else sgn x * of_int (round_even (\<bar>x\<bar> / ulp x)) * ulp x)"

text \<open>The operators \<open>*\<close>, \<open>/\<close>, \<open>+\<close> and \<open>-\<close> on finite numbers; the divisor is not 0.\<close>

definition js_mul :: "rat \<Rightarrow> rat \<Rightarrow> rat" where
  "js_mul x y = double (x * y)"

definition js_div :: "rat \<Rightarrow> rat \<Rightarrow> rat" where
  "js_div x y = double (x / y)"

definition js_add :: "rat \<Rightarrow> rat \<Rightarrow> rat" where
  "js_add x y = double (x + y)"

definition js_sub :: "rat \<Rightarrow> rat \<Rightarrow> rat" where
  "js_sub x y = double (x - y)"

text \<open>\<open>Math.round\<close> yields the nearest integer and rounds a half upwards, without error.\<close>

definition js_round :: "rat \<Rightarrow> int" where
  "js_round x = \<lfloor>x + 1 / 2\<rfloor>"

text \<open>
  \<open>Math.round((n / d) * 100) / 100\<close> for a count \<open>n\<close> and an integer \<open>d\<close> that is not 0, the
  expression of \<open>calculateClickVelocity\<close> and of the average of \<open>generateAnalyticsSummary\<close>.
\<close>

definition per_unit :: "nat \<Rightarrow> int \<Rightarrow> rat" where
  "per_unit n d = js_div (of_int (js_round (js_mul (js_div (of_nat n) (of_int d)) 100))) 100"

subsection \<open>Dates\<close>

text \<open>
  The time value of a \<open>Date\<close> is an integer of at most 8.64e15 in magnitude, or \<open>NaN\<close>:
  the date is then invalid, here \<open>None\<close>. \<open>new Date(v)\<close> clips the number \<open>v\<close>.
\<close>

definition max_time :: int where
  "max_time = 8640000000000000"

definition TimeClip :: "rat \<Rightarrow> int option" where
  "TimeClip v =
     (if \<bar>v\<bar> \<le> of_int max_time then Some (if v < 0 then \<lceil>v\<rceil> else \<lfloor>v\<rfloor>) else None)"

text \<open>
  What a function of the analytics can throw: \<open>toISOString\<close> a \<open>RangeError\<close> on an invalid
  date, \<open>reduce\<close> a \<open>TypeError\<close> on an empty array.
\<close>

datatype js_error = TypeError | RangeError

definition day_ms :: int where
  "day_ms = 24 * 60 * 60 * 1000"

text \<open>
  \<open>d.toISOString().split('T')[0]\<close> is the calendar date of the instant in UTC. The model
  writes a date as the number of its day since 1970-01-01; dates and day numbers
  correspond one to one.
\<close>

definition iso_date :: "int \<Rightarrow> int" where
  "iso_date t = t div day_ms"

definition toISOString_date :: "int option \<Rightarrow> js_error + int" where
  "toISOString_date d = (case d of None \<Rightarrow> Inl RangeError | Some t \<Rightarrow> Inr (iso_date t))"

text \<open>\<open>x * 24 * 60 * 60 * 1000\<close> and \<open>x * 60 * 60 * 1000\<close>, multiplied from the left.\<close>

definition days_to_ms :: "rat \<Rightarrow> rat" where
  "days_to_ms x = js_mul (js_mul (js_mul (js_mul x 24) 60) 60) 1000"

definition hours_to_ms :: "rat \<Rightarrow> rat" where
  "hours_to_ms x = js_mul (js_mul (js_mul x 60) 60) 1000"

text \<open>The results of a loop whose body can throw: those of all rounds, or the first error.\<close>

fun collect :: "('e + 'a) list \<Rightarrow> 'e + 'a list" where
  "collect [] = Inr []"
| "collect (x # xs) =
     (case x of
        Inl e \<Rightarrow> Inl e
      | Inr v \<Rightarrow> (case collect xs of Inl e \<Rightarrow> Inl e | Inr vs \<Rightarrow> Inr (v # vs)))"

section \<open>Analytics (src/lib/analytics.ts)\<close>

text \<open>
  What the functions take from their platform: the offset of local time from UTC at an
  instant (in ms, for \<open>getHours\<close> and \<open>getDay\<close>), the instant that \<open>new Date\<close> reads from
  the text of a stored timestamp (the instant itself on a host in UTC), the host name
  that the URL parser finds in a string, and the serialisation of the URL that it parses
  from a string (\<open>href\<close>); the last two are \<open>None\<close> when \<open>new URL\<close> throws.
\<close>

record platform =
  tzOffset :: "int \<Rightarrow> int"
  parseDate :: "int \<Rightarrow> int"
  url_hostname :: "string \<Rightarrow> string option"
  url_href :: "string \<Rightarrow> string option"

text \<open>\<open>new Date(click.timestamp)\<close>\<close>

definition click_time :: "platform \<Rightarrow> ClickEvent \<Rightarrow> int" where
  "click_time host click = parseDate host (timestamp click)"

definition getHours :: "platform \<Rightarrow> int \<Rightarrow> nat" where
  "getHours host t = nat (((t + tzOffset host t) div (60 * 60 * 1000)) mod 24)"

text \<open>Day 0 was a Thursday.\<close>

definition getDay :: "platform \<Rightarrow> int \<Rightarrow> nat" where
  "getDay host t = nat ((((t + tzOffset host t) div day_ms) + 4) mod 7)"

subsection \<open>A JavaScript \<open>Map\<close>: the entries in insertion order\<close>

fun map_set :: "('k \<times> 'v) list \<Rightarrow> 'k \<Rightarrow> 'v \<Rightarrow> ('k \<times> 'v) list" where
  "map_set [] k v = [(k, v)]"
| "map_set ((k', v') # m) k v = (if k' = k then (k, v) # m else (k', v') # map_set m k v)"

text \<open>\<open>m.set(k, (m.get(k) || 0) + 1)\<close>\<close>

definition count_up :: "('k \<times> nat) list \<Rightarrow> 'k \<Rightarrow> ('k \<times> nat) list" where
  "count_up m k = map_set m k ((case map_of m k of None \<Rightarrow> 0 | Some n \<Rightarrow> n) + 1)"

text \<open>\<open>m.get(k) || 0\<close>\<close>

definition get_or_0 :: "('k \<times> nat) list \<Rightarrow> 'k \<Rightarrow> nat" where
  "get_or_0 m k = (case map_of m k of None \<Rightarrow> 0 | Some n \<Rightarrow> n)"

text \<open>
  \<open>entries.sort(([, a], [, b]) => b - a)\<close>: a stable sort, larger counts first.
\<close>

definition sort_desc :: "('k \<times> nat) list \<Rightarrow> ('k \<times> nat) list" where
  "sort_desc m = sort_key (\<lambda>e. - int (snd e)) m"

text \<open>\<open>xs.slice(0, limit)\<close>: a negative limit counts from the end.\<close>

definition slice0 :: "int \<Rightarrow> 'a list \<Rightarrow> 'a list" where
  "slice0 limit xs =
     (if limit < 0 then take (nat (int (length xs) + limit)) xs else take (nat limit) xs)"

text \<open>
  \<open>totalClicks > 0 ? Math.round((n / totalClicks) * 100 * 100) / 100 : 0\<close>, the
  expression that three of the functions share.
\<close>

definition percentage_of :: "nat \<Rightarrow> nat \<Rightarrow> rat" where
  "percentage_of n totalClicks =
     (if totalClicks > 0
      then js_div (of_int (js_round
             (js_mul (js_mul (js_div (of_nat n) (of_nat totalClicks)) 100) 100))) 100
      else 0)"

subsection \<open>Trends and distributions\<close>

record TimeSeriesData =
  date :: int
  clicks_ts :: nat

text \<open>
  The loop over the days reads \<open>startDate.getTime()\<close>, which is \<open>NaN\<close> for an invalid date,
  and throws in the first round that makes an invalid date.
\<close>

definition calculateClickTrends ::
  "platform \<Rightarrow> int \<Rightarrow> ClickEvent list \<Rightarrow> int \<Rightarrow> js_error + TimeSeriesData list" where
  "calculateClickTrends host now clickEvents days =
     (let startDate = TimeClip (js_sub (of_int now) (days_to_ms (of_int days)))
      in case collect (map (\<lambda>i. toISOString_date
                                 (case startDate of
                                    None \<Rightarrow> None
                                  | Some t \<Rightarrow> TimeClip (js_add (of_int t) (days_to_ms (of_nat i)))))
                         [0..<nat days]) of
           Inl e \<Rightarrow> Inl e
         | Inr dateRange \<Rightarrow>
             let clicksByDate = fold (\<lambda>click m. count_up m (iso_date (click_time host click)))
                                  clickEvents []
             in Inr (map (\<lambda>d. \<lparr> date = d, clicks_ts = get_or_0 clicksByDate d \<rparr>) dateRange))"

record HourPoint =
  hour :: nat
  clicks_h :: nat

definition calculateHourlyDistribution :: "platform \<Rightarrow> ClickEvent list \<Rightarrow> HourPoint list" where
  "calculateHourlyDistribution host clickEvents =
     (let hourlyData = fold (\<lambda>click m. count_up m (getHours host (click_time host click))) clickEvents
                         (map (\<lambda>i. (i, 0)) [0..<24])
      in map (\<lambda>(h, n). \<lparr> hour = h, clicks_h = n \<rparr>) hourlyData)"

definition dayNames :: "string list" where
  "dayNames = [''Sunday'', ''Monday'', ''Tuesday'', ''Wednesday'', ''Thursday'', ''Friday'',
               ''Saturday'']"

text \<open>\<open>xs[i]\<close> is \<open>undefined\<close> out of range.\<close>

definition at_index :: "'a list \<Rightarrow> nat \<Rightarrow> 'a option" where
  "at_index xs i = (if i < length xs then Some (xs ! i) else None)"

record DayPoint =
  day :: "string option"
  clicks_d :: nat

definition calculateWeeklyDistribution :: "platform \<Rightarrow> ClickEvent list \<Rightarrow> DayPoint list" where
  "calculateWeeklyDistribution host clickEvents =
     (let weeklyData = fold (\<lambda>click m. count_up m (getDay host (click_time host click))) clickEvents
                         (map (\<lambda>i. (i, 0)) [0..<7])
      in map (\<lambda>(dayIndex, n). \<lparr> day = at_index dayNames dayIndex, clicks_d = n \<rparr>) weeklyData)"

subsection \<open>Geographic distribution\<close>

record MapLocation =
  coordinates :: "rat \<times> rat"
  country_loc :: string
  city_loc :: "string option"
  clicks_loc :: nat

record MapDataPoint = MapLocation +
  percentage :: rat

text \<open>
  One step of the grouping loop. The key \<open>`${latitude},${longitude}`\<close> is the pair of the
  two numbers; a coordinate that is absent or zero is falsy.
\<close>

definition group_location ::
  "ClickEvent \<Rightarrow> ((rat \<times> rat) \<times> MapLocation) list \<Rightarrow> ((rat \<times> rat) \<times> MapLocation) list" where
  "group_location click locationMap =
     (case (or_null_num (latitude click), or_null_num (longitude click)) of
        (Some la, Some lo) \<Rightarrow>
          (let key = (la, lo) in
           case map_of locationMap key of
             Some existing \<Rightarrow>
               map_set locationMap key (existing\<lparr> clicks_loc := clicks_loc existing + 1 \<rparr>)
           | None \<Rightarrow>
               map_set locationMap key
                 \<lparr> coordinates = (lo, la),
                   country_loc = (case or_null (country click) of None \<Rightarrow> ''Unknown''
                                  | Some c \<Rightarrow> c),
                   city_loc = city click, clicks_loc = 1 \<rparr>)
      | _ \<Rightarrow> locationMap)"

definition calculateGeographicDistribution :: "ClickEvent list \<Rightarrow> MapDataPoint list" where
  "calculateGeographicDistribution clickEvents =
     (let locationMap = fold group_location clickEvents [];
          totalClicks = length clickEvents
      in map (\<lambda>location. MapLocation.extend location
                 \<lparr> percentage = percentage_of (clicks_loc location) totalClicks \<rparr>)
           (map snd locationMap))"

subsection \<open>Referrers\<close>

definition extractDomain :: "platform \<Rightarrow> string \<Rightarrow> string" where
  "extractDomain host url =
     (if url = [] \<or> url = ''Direct'' then ''Direct''
      else case url_hostname host url of
        Some hostname \<Rightarrow> hostname
      | None \<Rightarrow> if length url > 50 then take 50 url @ ''...'' else url)"

record ReferrerStat =
  referrer :: string
  clicks_r :: nat
  percentage_r :: rat

definition calculateTopReferrers ::
  "platform \<Rightarrow> ClickEvent list \<Rightarrow> int \<Rightarrow> ReferrerStat list" where
  "calculateTopReferrers host clickEvents limit =
     (let referrerMap =
            fold (\<lambda>click m. count_up m
                    (extractDomain host
                       (case or_null (referer click) of None \<Rightarrow> ''Direct'' | Some r \<Rightarrow> r)))
              clickEvents [];
          totalClicks = length clickEvents
      in map (\<lambda>(r, n). \<lparr> referrer = r, clicks_r = n, percentage_r = percentage_of n totalClicks \<rparr>)
           (slice0 limit (sort_desc referrerMap)))"

subsection \<open>Devices\<close>

definition toLowerCase :: "string \<Rightarrow> string" where
  "toLowerCase s =
     map (\<lambda>c. let n = of_char c :: nat in
               if (65 \<le> n \<and> n \<le> 90) \<or> (192 \<le> n \<and> n \<le> 222 \<and> n \<noteq> 215)
               then char_of (n + 32) else c) s"

fun includes_str :: "string \<Rightarrow> string \<Rightarrow> bool" where
  "includes_str [] sub = (sub = [])"
| "includes_str (c # cs) sub = (take (length sub) (c # cs) = sub \<or> includes_str cs sub)"

record ParsedUserAgent =
  browser :: string
  device :: string
  os :: string

definition parseUserAgent :: "string \<Rightarrow> ParsedUserAgent" where
  "parseUserAgent userAgent =
     (let ua = toLowerCase userAgent in
      \<lparr> browser =
          (if includes_str ua ''chrome'' \<and> \<not> includes_str ua ''edg'' then ''Chrome''
           else if includes_str ua ''firefox'' then ''Firefox''
           else if includes_str ua ''safari'' \<and> \<not> includes_str ua ''chrome'' then ''Safari''
           else if includes_str ua ''edg'' then ''Edge''
           else if includes_str ua ''opera'' then ''Opera''
           else ''Unknown''),
        device =
          (if includes_str ua ''mobile'' then ''Mobile''
           else if includes_str ua ''tablet'' \<or> includes_str ua ''ipad'' then ''Tablet''
           else ''Desktop''),
        os =
          (if includes_str ua ''windows'' then ''Windows''
           else if includes_str ua ''mac os'' then ''macOS''
           else if includes_str ua ''linux'' then ''Linux''
           else if includes_str ua ''android'' then ''Android''
           else if includes_str ua ''ios'' \<or> includes_str ua ''iphone'' \<or> includes_str ua ''ipad'' then ''iOS''
           else ''Unknown'') \<rparr>)"

record NamedStat =
  name :: string
  clicks_n :: nat
  percentage_n :: rat

record DeviceStats =
  browsers :: "NamedStat list"
  devices :: "NamedStat list"
  operatingSystems :: "NamedStat list"

definition createStats :: "nat \<Rightarrow> (string \<times> nat) list \<Rightarrow> NamedStat list" where
  "createStats totalClicks m =
     map (\<lambda>(nm, n). \<lparr> name = nm, clicks_n = n, percentage_n = percentage_of n totalClicks \<rparr>)
       (sort_desc m)"

definition calculateDeviceStats :: "ClickEvent list \<Rightarrow> DeviceStats" where
  "calculateDeviceStats clickEvents =
     (let parsed = map (\<lambda>click. case or_null (user_agent click) of
                          Some ua \<Rightarrow> parseUserAgent ua
                        | None \<Rightarrow> \<lparr> browser = ''Unknown'', device = ''Unknown'',
                                     os = ''Unknown'' \<rparr>) clickEvents;
          browserMap = fold (\<lambda>p m. count_up m (browser p)) parsed [];
          deviceMap = fold (\<lambda>p m. count_up m (device p)) parsed [];
          osMap = fold (\<lambda>p m. count_up m (os p)) parsed [];
          totalClicks = length clickEvents
      in \<lparr> browsers = createStats totalClicks browserMap,
           devices = createStats totalClicks deviceMap,
           operatingSystems = createStats totalClicks osMap \<rparr>)"

subsection \<open>Velocity, peaks and the summary\<close>

text \<open>
  A comparison with an invalid \<open>startTime\<close> is false. With \<open>hours = 0\<close> the quotient is
  \<open>NaN\<close> or infinite: \<open>None\<close>.
\<close>

definition calculateClickVelocity ::
  "platform \<Rightarrow> int \<Rightarrow> ClickEvent list \<Rightarrow> int \<Rightarrow> rat option" where
  "calculateClickVelocity host now clickEvents hours =
     (let startTime = TimeClip (js_sub (of_int now) (hours_to_ms (of_int hours)));
          recentClicks = filter (\<lambda>click. case startTime of
                                            None \<Rightarrow> False
                                          | Some t \<Rightarrow> click_time host click \<ge> t) clickEvents
      in if hours = 0 then None else Some (per_unit (length recentClicks) hours))"

text \<open>\<open>xs.reduce(f)\<close> with no initial value throws a \<open>TypeError\<close> on an empty array.\<close>

definition reduce :: "('a \<Rightarrow> 'a \<Rightarrow> 'a) \<Rightarrow> 'a list \<Rightarrow> js_error + 'a" where
  "reduce f xs = (case xs of [] \<Rightarrow> Inl TypeError | x # r \<Rightarrow> Inr (foldl f x r))"

record PeakTimes =
  peakHour :: nat
  peakDay :: "string option"
  peakHourClicks :: nat
  peakDayClicks :: nat

definition calculatePeakTimes :: "platform \<Rightarrow> ClickEvent list \<Rightarrow> js_error + PeakTimes" where
  "calculatePeakTimes host clickEvents =
     (let hourlyDist = calculateHourlyDistribution host clickEvents;
          weeklyDist = calculateWeeklyDistribution host clickEvents
      in case reduce (\<lambda>mx current. if clicks_h current > clicks_h mx then current else mx)
                hourlyDist of
           Inl e \<Rightarrow> Inl e
         | Inr peakHourData \<Rightarrow>
             (case reduce (\<lambda>mx current. if clicks_d current > clicks_d mx then current else mx)
                     weeklyDist of
                Inl e \<Rightarrow> Inl e
              | Inr peakDayData \<Rightarrow>
                  Inr \<lparr> peakHour = hour peakHourData, peakDay = day peakDayData,
                        peakHourClicks = clicks_h peakHourData,
                        peakDayClicks = clicks_d peakDayData \<rparr>))"

record AnalyticsSummary =
  totalClicks_s :: nat
  uniqueClicks_s :: nat
  avgClicksPerDay :: rat
  clickVelocity :: "rat option"
  topCountry :: "string option"
  topCity :: "string option"
  peakHour_s :: nat
  peakDay_s :: "string option"

text \<open>The first key of the entries sorted by count, when there is an entry.\<close>

definition top_key :: "(string \<times> nat) list \<Rightarrow> string option" where
  "top_key m = (case sort_desc m of [] \<Rightarrow> None | e # _ \<Rightarrow> Some (fst e))"

definition generateAnalyticsSummary ::
  "platform \<Rightarrow> int \<Rightarrow> ClickEvent list \<Rightarrow> js_error + AnalyticsSummary" where
  "generateAnalyticsSummary host now clickEvents =
     (let totalClicks = length clickEvents;
          uniqueIPs = length (remdups (map ip_address clickEvents));
          dateRange =
            (if length clickEvents > 0
             then max 1 \<lceil>js_div (js_sub (of_int now) (of_int (click_time host (last clickEvents))))
                                 (of_int day_ms)\<rceil>
             else 1);
          avgClicksPerDay' = per_unit totalClicks dateRange;
          countryCounts = fold (\<lambda>click m. case or_null (country click) of
                                  None \<Rightarrow> m | Some c \<Rightarrow> count_up m c) clickEvents [];
          cityCounts = fold (\<lambda>click m. case or_null (city click) of
                               None \<Rightarrow> m | Some c \<Rightarrow> count_up m c) clickEvents []
      in case calculatePeakTimes host clickEvents of
           Inl e \<Rightarrow> Inl e
         | Inr peakTimes \<Rightarrow>
             Inr \<lparr> totalClicks_s = totalClicks, uniqueClicks_s = uniqueIPs,
                   avgClicksPerDay = avgClicksPerDay',
                   clickVelocity = calculateClickVelocity host now clickEvents 24,
                   topCountry = top_key countryCounts, topCity = top_key cityCounts,
                   peakHour_s = peakHour peakTimes, peakDay_s = peakDay peakTimes \<rparr>)"

section \<open>The HTTP routes\<close>

text \<open>The responses of the routes, by status; \<open>'a\<close> is the data of a success.\<close>

datatype 'a response =
    Ok200 'a
  | Created201 'a
  | Redirect302 string
  | BadRequest400
  | NotFound404
  | Conflict409
  | Gone410
  | InternalError500

subsection \<open>\<open>GET /api/track/[code]\<close>\<close>

text \<open>What the server holds between requests: the store and the state of the resolver.\<close>

record server =
  db :: database
  geo :: geo_state

text \<open>
  The handler answers with the redirect and leaves the resolution of the location and
  the recording of the click to a detached task. The model returns the answer together
  with the state after that task has run; an error of \<open>recordClick\<close> is logged and dropped.
  \<open>NextResponse.redirect\<close> parses its argument, throws on a string that is not a URL, and
  sends the serialisation of the parsed URL as the location.
\<close>

definition GET_track ::
  "platform \<Rightarrow> providers \<Rightarrow> int \<Rightarrow> (string \<Rightarrow> string option) \<Rightarrow> string \<Rightarrow> server
     \<Rightarrow> unit response \<times> server" where
  "GET_track host env now headers shortCode srv =
     (if shortCode = [] then (BadRequest400, srv)
      else case getLinkByCode (db srv) shortCode of
        None \<Rightarrow> (NotFound404, srv)
      | Some link \<Rightarrow>
          if \<not> active link then (Gone410, srv)
          else
            let ipAddress = getClientIP headers;
                userAgent = or_null (headers ''user-agent'');
                referer' = or_null (headers ''referer'');
                (locationData, geo') = getLocationWithFallback env now ipAddress (geo srv);
                db' = (case recordClick now (id_link link)
                              \<lparr> ip_address = ipAddress, user_agent = userAgent,
                                referer = referer', country = country_geo locationData,
                                country_code = countryCode locationData,
                                region = region_geo locationData, city = city_geo locationData,
                                latitude = lat locationData, longitude = lon locationData,
                                timezone = timezone_geo locationData,
                                isp = isp_geo locationData \<rparr> (db srv) of
                         Inl e \<Rightarrow> db srv
                       | Inr (clickRecord, d) \<Rightarrow> d)
            in (case url_href host (original_url link) of
                  Some location \<Rightarrow> Redirect302 location
                | None \<Rightarrow> InternalError500,
                \<lparr> db = db', geo = geo' \<rparr>))"

subsection \<open>\<open>POST /api/links\<close>\<close>

text \<open>\<open>/^[a-zA-Z0-9-_]+$/\<close>\<close>

definition code_char :: "char \<Rightarrow> bool" where
  "code_char c =
     (let n = of_char c :: nat in
      (97 \<le> n \<and> n \<le> 122) \<or> (65 \<le> n \<and> n \<le> 90) \<or> (48 \<le> n \<and> n \<le> 57)
      \<or> c = CHR ''-'' \<or> c = CHR ''_'')"

text \<open>
  The result is \<open>None\<close> when \<open>createLink\<close> has not returned. An error whose message
  contains \<open>already exists\<close> is a conflict; that is the message of \<open>createLink\<close>'s own
  error, not the one of a failed constraint.
\<close>

definition POST_links ::
  "platform \<Rightarrow> rat list \<Rightarrow> int \<Rightarrow> CreateLinkRequest \<Rightarrow> database
     \<Rightarrow> (TrackingLink response \<times> database) option" where
  "POST_links host rnd now body d =
     (if original_url_req body = [] then Some (BadRequest400, d)
      else if url_href host (original_url_req body) = None then Some (BadRequest400, d)
      else if (case or_null (custom_code body) of
                 Some code \<Rightarrow> length code < 3 \<or> length code > 20
               | None \<Rightarrow> False) then Some (BadRequest400, d)
      else if (case or_null (custom_code body) of
                 Some code \<Rightarrow> \<not> list_all code_char code
               | None \<Rightarrow> False) then Some (BadRequest400, d)
      else (case createLink rnd now
                    \<lparr> original_url_req = original_url_req body,
                      title_req = or_null (map_option trim (title_req body)),
                      description_req = or_null (map_option trim (description_req body)),
                      custom_code = or_null (map_option trim (custom_code body)) \<rparr> d of
               None \<Rightarrow> None
             | Some (Inr (newLink, d')) \<Rightarrow> Some (Created201 newLink, d')
             | Some (Inl CustomCodeExists) \<Rightarrow> Some (Conflict409, d)
             | Some (Inl e) \<Rightarrow> Some (InternalError500, d)))"

subsection \<open>\<open>GET /api/analytics/[id]\<close>\<close>

text \<open>
  Of the figures that \<open>getLinkAnalytics\<close> reads from the store, the model keeps the link,
  the two counts over the whole click log, and the recent clicks:
  \<open>SELECT * FROM clicks WHERE link_id = ? ORDER BY timestamp DESC LIMIT 20\<close>.
  Rows of equal timestamp stay in insertion order.
\<close>

record LinkAnalytics =
  link :: TrackingLink
  totalClicks :: nat
  uniqueClicks :: nat
  recentClicks :: "ClickEvent list"

definition getLinkAnalytics :: "database \<Rightarrow> int \<Rightarrow> LinkAnalytics option" where
  "getLinkAnalytics d linkId =
     (case getLinkById d linkId of
        None \<Rightarrow> None
      | Some l \<Rightarrow>
          let own = filter (\<lambda>c. link_id c = linkId) (clicks_tbl d) in
          Some \<lparr> link = l, totalClicks = length own,
                 uniqueClicks = length (remdups (map ip_address own)),
                 recentClicks = take 20 (sort_key (\<lambda>c. - timestamp c) own) \<rparr>)"

record AdvancedAnalytics =
  clickTrends :: "TimeSeriesData list"
  hourlyDistribution :: "HourPoint list"
  weeklyDistribution :: "DayPoint list"
  geographicDistribution :: "MapDataPoint list"
  topReferrers :: "ReferrerStat list"
  deviceStats :: DeviceStats
  summary :: AnalyticsSummary

text \<open>
  The seven advanced figures, as the route computes them from one list of events, the
  trends first and the summary last. A \<open>days\<close> parameter that is not a number leaves the
  loop of \<open>calculateClickTrends\<close> without a round, as 0 does; \<open>calculateTopReferrers\<close> runs
  with its default limit 10. An error of one of the functions is caught by the route,
  which answers 500.
\<close>

definition advancedAnalytics ::
  "platform \<Rightarrow> int \<Rightarrow> int option \<Rightarrow> ClickEvent list \<Rightarrow> js_error + AdvancedAnalytics" where
  "advancedAnalytics host now days clickEvents =
     (case calculateClickTrends host now clickEvents (case days of None \<Rightarrow> 0 | Some n \<Rightarrow> n) of
        Inl e \<Rightarrow> Inl e
      | Inr trends \<Rightarrow>
          (case generateAnalyticsSummary host now clickEvents of
             Inl e \<Rightarrow> Inl e
           | Inr s \<Rightarrow>
               Inr \<lparr> clickTrends = trends,
                     hourlyDistribution = calculateHourlyDistribution host clickEvents,
                     weeklyDistribution = calculateWeeklyDistribution host clickEvents,
                     geographicDistribution = calculateGeographicDistribution clickEvents,
                     topReferrers = calculateTopReferrers host clickEvents 10,
                     deviceStats = calculateDeviceStats clickEvents,
                     summary = s \<rparr>))"

definition GET_analytics ::
  "platform \<Rightarrow> int \<Rightarrow> database \<Rightarrow> string \<Rightarrow> string option \<Rightarrow> string option
     \<Rightarrow> (LinkAnalytics \<times> AdvancedAnalytics option) response" where
  "GET_analytics host now d idParam daysParam advancedParam =
     (case parseInt idParam of
        None \<Rightarrow> BadRequest400
      | Some linkId \<Rightarrow>
          let days = parseInt (case or_null daysParam of None \<Rightarrow> ''30'' | Some v \<Rightarrow> v);
              includeAdvanced = (advancedParam = Some ''true'')
          in case getLinkAnalytics d linkId of
               None \<Rightarrow> NotFound404
             | Some analytics \<Rightarrow>
                 if includeAdvanced \<and> length (recentClicks analytics) > 0
                 then (case advancedAnalytics host now days (recentClicks analytics) of
                         Inl e \<Rightarrow> InternalError500
                       | Inr adv \<Rightarrow> Ok200 (analytics, Some adv))
                 else Ok200 (analytics, None))"

section \<open>Notions of the specification and example states\<close>

text \<open>
  The fields of a link that a user update must leave alone: its id, click counter,
  short code, destination and creation time.
\<close>

definition frame_of :: "TrackingLink \<Rightarrow> int \<times> int \<times> string \<times> string \<times> int" where
  "frame_of l = (id_link l, clicks l, short_code l, original_url l, created_at l)"

text \<open>
  The first sample link of database.sql, the store that holds it, the same store after
  the link has been deactivated, and after one visit from the local host.
\<close>

definition demo_request :: CreateLinkRequest where
  "demo_request = \<lparr> original_url_req = ''https://example.com'', title_req = Some ''Demo Link 1'',
                     description_req = None, custom_code = Some ''demo1'' \<rparr>"

definition empty_db :: database where
  "empty_db = \<lparr> links = [], clicks_tbl = [], links_seq = 0, clicks_seq = 0 \<rparr>"

definition demo_link :: TrackingLink where
  "demo_link = \<lparr> id_link = 1, short_code = ''demo1'', original_url = ''https://example.com'',
                  title = Some ''Demo Link 1'', description = None, created_at = 0,
                  updated_at = 0, clicks = 0, active = True \<rparr>"

definition demo_db :: database where
  "demo_db = \<lparr> links = [demo_link], clicks_tbl = [], links_seq = 1, clicks_seq = 0 \<rparr>"

definition disabled_db :: database where
  "disabled_db = demo_db\<lparr> links := [demo_link\<lparr> active := False, updated_at := 5000 \<rparr>] \<rparr>"

definition local_visit :: ClickData where
  "local_visit = \<lparr> ip_address = ''127.0.0.1'', user_agent = None, referer = None,
                    country = Some ''Unknown'', country_code = Some ''XX'',
                    region = Some ''Unknown'', city = Some ''Unknown'', latitude = Some 0,
                    longitude = Some 0, timezone = Some ''Unknown'', isp = Some ''Unknown'' \<rparr>"

definition local_click :: ClickEvent where
  "local_click = \<lparr> ip_address = ''127.0.0.1'', user_agent = None, referer = None,
                    country = Some ''Unknown'', country_code = Some ''XX'',
                    region = Some ''Unknown'', city = Some ''Unknown'', latitude = None,
                    longitude = None, timezone = Some ''Unknown'', isp = Some ''Unknown'',
                    id_click = 1, link_id = 1, timestamp = 7000 \<rparr>"

definition clicked_db :: database where
  "clicked_db = \<lparr> links = [demo_link\<lparr> clicks := 1 \<rparr>], clicks_tbl = [local_click],
                   links_seq = 1, clicks_seq = 1 \<rparr>"

text \<open>A request that asks for the short code of the sample link once more.\<close>

definition reused_request :: CreateLinkRequest where
  "reused_request = \<lparr> original_url_req = ''https://example.org'', title_req = None,
                      description_req = None, custom_code = Some ''demo1'' \<rparr>"

text \<open>
  A platform in UTC whose URL parser accepts every string, serialises it as it stands,
  and finds no host name.
\<close>

definition any_url_host :: platform where
  "any_url_host = \<lparr> tzOffset = (\<lambda>t. 0), parseDate = (\<lambda>t. t), url_hostname = (\<lambda>s. None),
                     url_href = (\<lambda>s. Some s) \<rparr>"

text \<open>A store whose only link is inactive and has a short code that the generator can draw.\<close>

definition generated_db :: database where
  "generated_db =
     demo_db\<lparr> links := [demo_link\<lparr> short_code := ''AAAAAAAA'', active := False \<rparr>] \<rparr>"

text \<open>
  The validity of coordinates in the words of the specification: both present, both in
  range, and not the pair (0, 0). A coordinate that is \<open>undefined\<close> or \<open>null\<close> is missing;
  \<open>NaN\<close> and the infinities lie in no range.
\<close>

definition claimed_valid :: "js_value \<Rightarrow> js_value \<Rightarrow> bool" where
  "claimed_valid la lo =
     (case (la, lo) of
        (Number a, Number b) \<Rightarrow>
          - 90 \<le> a \<and> a \<le> 90 \<and> - 180 \<le> b \<and> b \<le> 180 \<and> (a, b) \<noteq> (0, 0)
      | _ \<Rightarrow> False)"

text \<open>
  What the check accepts as one coordinate, for the bound 90 or 180: \<open>null\<close>, and a
  number within the bound that is not 0.
\<close>

fun accepted_coordinate :: "rat \<Rightarrow> js_value \<Rightarrow> bool" where
  "accepted_coordinate bound Null = True"
| "accepted_coordinate bound (Number x) = (- bound \<le> x \<and> x \<le> bound \<and> x \<noteq> 0)"
| "accepted_coordinate bound v = False"

text \<open>
  The addresses that the specification calls private, in dotted decimal notation:
  \<open>dec\<close> writes a number in decimal, \<open>dotted a b c d\<close> is the address \<open>a.b.c.d\<close>, and
  \<open>private_range a b\<close> says that it lies in 10.0.0.0/8, 172.16.0.0/12, 192.168.0.0/16 or
  169.254.0.0/16.
\<close>

definition digit_char :: "nat \<Rightarrow> char" where
  "digit_char k = ''0123456789'' ! k"

fun dec :: "nat \<Rightarrow> string" where
  "dec n = (if n < 10 then [digit_char n] else dec (n div 10) @ [digit_char (n mod 10)])"

declare dec.simps [simp del]

definition dotted :: "nat \<Rightarrow> nat \<Rightarrow> nat \<Rightarrow> nat \<Rightarrow> string" where
  "dotted a b c d = dec a @ ''.'' @ dec b @ ''.'' @ dec c @ ''.'' @ dec d"

definition private_range :: "nat \<Rightarrow> nat \<Rightarrow> bool" where
  "private_range a b =
     (a = 10 \<or> (a = 172 \<and> 16 \<le> b \<and> b \<le> 31) \<or> (a = 192 \<and> b = 168) \<or> (a = 169 \<and> b = 254))"

text \<open>
  Providers that cannot be reached, a resolver whose budget of 900 calls is used up
  (and whose hour has not passed at time 0), and one with the whole budget left.
\<close>

definition offline :: providers where
  "offline = \<lparr> primary = (\<lambda>ip. Threw), secondary = (\<lambda>ip. Threw) \<rparr>"

definition exhausted :: geo_state where
  "exhausted = \<lparr> rateLimiter = \<lparr> calls = 900, resetTime = 3600000 \<rparr>, external_calls = [] \<rparr>"

definition fresh :: geo_state where
  "fresh = \<lparr> rateLimiter = \<lparr> calls = 0, resetTime = 3600000 \<rparr>, external_calls = [] \<rparr>"

text \<open>A non-empty string of decimal digits.\<close>

definition decimal :: "string \<Rightarrow> bool" where
  "decimal s = (s \<noteq> [] \<and> list_all (\<lambda>c. \<exists>k::nat. k < 10 \<and> c = digit_char k) s)"

text \<open>A click event with the given time, referrer and coordinates, and nothing else known.\<close>

definition visit :: "int \<Rightarrow> string option \<Rightarrow> rat option \<Rightarrow> rat option \<Rightarrow> ClickEvent" where
  "visit t ref la lo =
     \<lparr> ip_address = ''203.0.113.7'', user_agent = None, referer = ref, country = None,
       country_code = None, region = None, city = None, latitude = la, longitude = lo,
       timezone = None, isp = None, id_click = 1, link_id = 1, timestamp = t \<rparr>"

text \<open>
  The span in days from the instant \<open>t\<close> to now, rounded up to whole days and at least 1.
\<close>

definition span_days :: "int \<Rightarrow> int \<Rightarrow> int" where
  "span_days now t = max 1 \<lceil>(of_int (now - t) :: rat) / of_int day_ms\<rceil>"

text \<open>
  The average of the summary in the words of the specification: the number of events
  over the days between the oldest event and now, rounded up to whole days and at least
  1, the quotient rounded to two decimals; 0 for no events.
\<close>

definition claimed_avgClicksPerDay :: "platform \<Rightarrow> int \<Rightarrow> ClickEvent list \<Rightarrow> rat" where
  "claimed_avgClicksPerDay host now clickEvents =
     (if clickEvents = [] then 0
      else of_int (js_round (of_nat (length clickEvents)
             / of_int (span_days now (Min (set (map (click_time host) clickEvents)))) * 100))
           / 100)"


text \<open>
  The share of \<open>n\<close> in \<open>t\<close> in percent, rounded to two decimals in exact arithmetic, a half
  going upwards.
\<close>

definition exact_percentage :: "nat \<Rightarrow> nat \<Rightarrow> rat" where
  "exact_percentage n t = of_int \<lfloor>(of_nat n / of_nat t :: rat) * 100 * 100 + 1 / 2\<rfloor> / 100"

text \<open>Ten days after the epoch.\<close>

definition ten_days :: int where
  "ten_days = 10 * day_ms"

text \<open>The distinct elements of a list, in the order in which they first occur.\<close>

fun first_seen :: "'a list \<Rightarrow> 'a list" where
  "first_seen [] = []"
| "first_seen (x # xs) = x # removeAll x (first_seen xs)"

text \<open>
  The groups of a list of keys: each distinct key with the number of its occurrences,
  in the order of first occurrence.
\<close>

definition groups_of :: "'k list \<Rightarrow> ('k \<times> nat) list" where
  "groups_of ks = map (\<lambda>k. (k, count_list ks k)) (first_seen ks)"

text \<open>The referrer group of an event: the key under which \<open>calculateTopReferrers\<close> counts it.\<close>

definition domain_of :: "platform \<Rightarrow> ClickEvent \<Rightarrow> string" where
  "domain_of host click =
     extractDomain host (case or_null (referer click) of None \<Rightarrow> ''Direct'' | Some r \<Rightarrow> r)"

text \<open>The row that \<open>calculateTopReferrers\<close> makes of a group.\<close>

definition referrer_entry :: "nat \<Rightarrow> string \<times> nat \<Rightarrow> ReferrerStat" where
  "referrer_entry n e =
     \<lparr> referrer = fst e, clicks_r = snd e, percentage_r = percentage_of (snd e) n \<rparr>"

text \<open>
  The coordinates of an event that carries a latitude and a longitude of which neither
  is zero; and the coordinates of the events of a list that have such.
\<close>

definition coords_of :: "ClickEvent \<Rightarrow> (rat \<times> rat) option" where
  "coords_of click =
     (case (latitude click, longitude click) of
        (Some la, Some lo) \<Rightarrow> if la \<noteq> 0 \<and> lo \<noteq> 0 then Some (la, lo) else None
      | _ \<Rightarrow> None)"

definition located_keys :: "ClickEvent list \<Rightarrow> (rat \<times> rat) list" where
  "located_keys cs = concat (map (\<lambda>c. case coords_of c of None \<Rightarrow> [] | Some k \<Rightarrow> [k]) cs)"

text \<open>
  Example events: six with six different referrers, four of which two share a referrer,
  160 of which 137 have one referrer and 23 another, one in London, one with no
  location, and one on the equator.
\<close>

definition six_referrers :: "ClickEvent list" where
  "six_referrers = map (\<lambda>r. visit 0 (Some r) None None) [''a'', ''b'', ''c'', ''d'', ''e'', ''f'']"

definition four_referrers :: "ClickEvent list" where
  "four_referrers = map (\<lambda>r. visit 0 (Some r) None None) [''a'', ''b'', ''b'', ''c'']"

definition uneven_referrers :: "ClickEvent list" where
  "uneven_referrers = replicate 137 (visit 0 (Some ''b'') None None)
                      @ replicate 23 (visit 0 (Some ''a'') None None)"

definition london :: ClickEvent where
  "london = visit 0 None (Some (103 / 2)) (Some (- 1 / 10))"

definition nowhere :: ClickEvent where
  "nowhere = visit 0 None None None"

definition equator :: ClickEvent where
  "equator = visit 0 None (Some 0) (Some 10)"

text \<open>The sample store after 21 visits to its link, one per second.\<close>

definition busy_db :: database where
  "busy_db = demo_db\<lparr> clicks_tbl := map (\<lambda>i. local_click\<lparr> id_click := int i + 1,
                                             timestamp := int i * 1000 \<rparr>) [0..<21],
                       clicks_seq := 21 \<rparr>"

section \<open>Properties of the store\<close>

subsection \<open>What an update leaves alone\<close>

lemma fold_updates_frame:
  "frame_of (fold (\<lambda>u. u) us l) = frame_of l"
  if "\<forall>u \<in> set us. \<forall>x. frame_of (u x) = frame_of x"
  using that by (induction us arbitrary: l) auto

lemma updateLink_links_frame:
  "map frame_of (links (snd (updateLink now i data d))) = map frame_of (links d)"
proof -
  have upd: "frame_of (fold (\<lambda>u. u) us l) = frame_of l"
    if "us = (case title_upd data of None \<Rightarrow> [] | Some t \<Rightarrow> [\<lambda>l. l\<lparr> title := Some t \<rparr>])
          @ (case description_upd data of None \<Rightarrow> []
               | Some d \<Rightarrow> [\<lambda>l. l\<lparr> description := Some d \<rparr>])
          @ (case active_upd data of None \<Rightarrow> [] | Some a \<Rightarrow> [\<lambda>l. l\<lparr> active := a \<rparr>])
          @ [\<lambda>l. l\<lparr> updated_at := datetime_now now \<rparr>]" for us l
    unfolding that
    by (rule fold_updates_frame) (auto simp: frame_of_def split: option.splits)
  show ?thesis
    unfolding updateLink_def Let_def
    by (auto simp: upd[OF refl, simplified] split: option.splits)
qed

lemma find_frame:
  "map frame_of xs = map frame_of ys \<Longrightarrow>
   map_option frame_of (find (\<lambda>l. id_link l = i) xs) = map_option frame_of (find (\<lambda>l. id_link l = i) ys)"
proof (induction xs arbitrary: ys)
  case Nil
  then show ?case by simp
next
  case (Cons x xs)
  then obtain y ys' where ys: "ys = y # ys'" by (cases ys) auto
  with Cons.prems have fx: "frame_of x = frame_of y"
    and rest: "map frame_of xs = map frame_of ys'" by auto
  from fx have "id_link x = id_link y" by (simp add: frame_of_def)
  then show ?case using Cons.IH[OF rest] fx ys by simp
qed

lemma updateLink_result_frame:
  "map_option frame_of (fst (updateLink now i data d)) = map_option frame_of (getLinkById d i)"
proof -
  have "fst (updateLink now i data d) = getLinkById (snd (updateLink now i data d)) i"
    by (simp add: updateLink_def Let_def)
  then show ?thesis
    using find_frame[OF updateLink_links_frame] by (simp add: getLinkById_def)
qed

lemma demo_db_created: "createLink rnd 0 demo_request empty_db = Some (Inr (demo_link, demo_db))"
  by (simp add: createLink_def demo_request_def empty_db_def or_null_def getLinkByCode_def
      insert_link_def demo_link_def demo_db_def datetime_now_def Let_def)

lemma disabled_db_updated:
  "updateLink 5000 1 \<lparr> title_upd = None, description_upd = None, active_upd = Some False \<rparr> demo_db
   = (Some (demo_link\<lparr> active := False, updated_at := 5000 \<rparr>), disabled_db)"
  by (simp add: updateLink_def demo_db_def disabled_db_def demo_link_def getLinkById_def
      datetime_now_def)

lemma createLink_appends:
  "createLink rnd now req d = Some (Inr (l, d')) \<Longrightarrow> links d' = links d @ [l] \<and> clicks l = 0"
  by (auto simp: createLink_def insert_link_def Let_def split: option.splits if_splits)

lemma recordClick_links:
  "recordClick now i cd d = Inr (c, d') \<Longrightarrow>
   links d' = map (\<lambda>l. if id_link l = i then l\<lparr> clicks := clicks l + 1 \<rparr> else l) (links d)"
  by (auto simp: recordClick_def Let_def split: if_splits)

text \<open>
  Claim C9. Whatever the update request, \<open>updateLink\<close> leaves the id, the click counter,
  the short code, the destination and the creation time of every link as they were, in
  the store and in the link it returns. \<open>createLink\<close> only adds a row, \<open>deleteLink\<close> only
  takes rows away, and \<open>recordClick\<close> adds one to the counter of its link: no operation but
  \<open>recordClick\<close> changes a click counter.
\<close>

theorem updateLink_frame:
  "map frame_of (links (snd (updateLink now i data d))) = map frame_of (links d)
   \<and> map_option frame_of (fst (updateLink now i data d)) = map_option frame_of (getLinkById d i)
   \<and> (\<forall>l d'. createLink rnd now req d = Some (Inr (l, d'))
         \<longrightarrow> map frame_of (links d') = map frame_of (links d) @ [frame_of l])
   \<and> map frame_of (links (snd (deleteLink i d)))
       = filter (\<lambda>f. fst f \<noteq> i) (map frame_of (links d))
   \<and> (\<forall>c d'. recordClick now i cd d = Inr (c, d')
         \<longrightarrow> map clicks (links d')
             = map (\<lambda>l. if id_link l = i then clicks l + 1 else clicks l) (links d))"
proof (intro conjI allI impI)
  show "map frame_of (links (snd (updateLink now i data d))) = map frame_of (links d)"
    by (rule updateLink_links_frame)
  show "map_option frame_of (fst (updateLink now i data d)) = map_option frame_of (getLinkById d i)"
    by (rule updateLink_result_frame)
  show "map frame_of (links d') = map frame_of (links d) @ [frame_of l]"
    if "createLink rnd now req d = Some (Inr (l, d'))" for l d'
    using createLink_appends[OF that] by simp
  show "map frame_of (links (snd (deleteLink i d)))
        = filter (\<lambda>f. fst f \<noteq> i) (map frame_of (links d))"
    by (simp add: deleteLink_def filter_map comp_def frame_of_def)
  show "map clicks (links d') = map (\<lambda>l. if id_link l = i then clicks l + 1 else clicks l) (links d)"
    if "recordClick now i cd d = Inr (c, d')" for c d'
    using recordClick_links[OF that] by (simp add: comp_def if_distrib cong: if_cong)
qed

lemma clicked_db_recorded: "recordClick 7654 1 local_visit demo_db = Inr (local_click, clicked_db)"
  by (simp add: recordClick_def demo_db_def demo_link_def getLinkById_def Let_def local_visit_def
      local_click_def clicked_db_def or_null_def or_null_num_def datetime_now_def)

theorem updateLink_frame_witness:
  "createLink [] 0 demo_request empty_db = Some (Inr (demo_link, demo_db))
   \<and> map frame_of (links demo_db) = map frame_of (links empty_db) @ [frame_of demo_link]
   \<and> recordClick 7654 1 local_visit demo_db = Inr (local_click, clicked_db)
   \<and> map clicks (links clicked_db) = [1]
   \<and> map frame_of (links (snd (updateLink 5000 1
          \<lparr> title_upd = Some ''New'', description_upd = None, active_upd = Some False \<rparr> demo_db)))
       = [(1, 0, ''demo1'', ''https://example.com'', 0)]"
proof -
  let ?upd = "\<lparr> title_upd = Some ''New'', description_upd = None, active_upd = Some False \<rparr>"
  note at_empty = updateLink_frame[of 0 1 ?upd empty_db "[]" demo_request local_visit]
  note at_demo = updateLink_frame[of 7654 1 ?upd demo_db "[]" demo_request local_visit]
  note at_5000 = updateLink_frame[of 5000 1 ?upd demo_db "[]" demo_request local_visit]
  have created: "createLink [] 0 demo_request empty_db = Some (Inr (demo_link, demo_db))"
    by (rule demo_db_created)
  from at_empty created
  have a: "map frame_of (links demo_db) = map frame_of (links empty_db) @ [frame_of demo_link]"
    by blast
  have recorded: "recordClick 7654 1 local_visit demo_db = Inr (local_click, clicked_db)"
    by (rule clicked_db_recorded)
  from at_demo recorded
  have "map clicks (links clicked_db)
        = map (\<lambda>l. if id_link l = 1 then clicks l + 1 else clicks l) (links demo_db)"
    by blast
  then have b: "map clicks (links clicked_db) = [1]"
    by (simp add: demo_db_def demo_link_def)
  from at_5000
  have "map frame_of (links (snd (updateLink 5000 1 ?upd demo_db))) = map frame_of (links demo_db)"
    by blast
  then have c: "map frame_of (links (snd (updateLink 5000 1 ?upd demo_db)))
                = [(1, 0, ''demo1'', ''https://example.com'', 0)]"
    by (simp add: demo_db_def demo_link_def frame_of_def)
  from created a recorded b c show ?thesis by blast
qed

subsection \<open>Lookup by short code sees active links only\<close>

lemma getLinkByCode_active:
  "getLinkByCode d code = Some l \<Longrightarrow> active l \<and> short_code l = code \<and> l \<in> set (links d)"
  by (auto simp: getLinkByCode_def find_Some_iff)

lemma getLinkByCode_inactive:
  "list_all (\<lambda>l. short_code l = code \<longrightarrow> \<not> active l) (links d) \<Longrightarrow> getLinkByCode d code = None"
  by (auto simp: getLinkByCode_def find_None_iff list_all_iff)

lemma GET_track_never_Gone: "fst (GET_track host env now headers code srv) \<noteq> Gone410"
  by (auto simp: GET_track_def Let_def split: option.splits prod.splits dest: getLinkByCode_active)

lemma GET_track_inactive:
  assumes "list_all (\<lambda>l. short_code l = code \<longrightarrow> \<not> active l) (links (db srv))" and "code \<noteq> []"
  shows "GET_track host env now headers code srv = (NotFound404, srv)"
  using getLinkByCode_inactive[OF assms(1)] assms(2) by (simp add: GET_track_def)

text \<open>
  Claim C1 says that a tracking request for a deactivated link is answered with
  \<open>Gone\<close>. \<open>getLinkByCode\<close> selects among the active links, so the handler never sees a
  link that is not active: the request for the deactivated sample link is answered with
  \<open>NotFound\<close>, and the store and the resolver stay as they are. (The two lemmas before
  say it for every store: no request is answered with \<open>Gone\<close>.)
\<close>

theorem GET_track_disabled_demo:
  "GET_track host env now headers ''demo1'' \<lparr> db = disabled_db, geo = g \<rparr>
   = (NotFound404, \<lparr> db = disabled_db, geo = g \<rparr>)"
  by (rule GET_track_inactive) (simp_all add: disabled_db_def demo_db_def demo_link_def)

subsection \<open>Short codes of inactive links\<close>

lemma gen_A: "generateShortCode [0,0,0,0,0,0,0,0] = ''AAAAAAAA''"
  by (simp add: generateShortCode_def chars_def charAt_def)

text \<open>
  Claim C3 says that a custom code equal to the code of any link, active or not, is
  rejected as a conflict, and that a generated code never meets an existing one. The
  check of \<open>createLink\<close> and its generation loop look at active links only. With the
  code of the deactivated sample link, the insert fails on the \<open>UNIQUE\<close> constraint of the
  table and the route answers 500, not 409; a generated code that an inactive link has
  ends in the same failure.
\<close>

theorem createLink_reuses_disabled_code:
  "createLink rnd now reused_request disabled_db = Some (Inl UniqueConstraintFailed)
   \<and> POST_links any_url_host rnd now reused_request disabled_db
       = Some (InternalError500, disabled_db)
   \<and> createLink [0,0,0,0,0,0,0,0] now (reused_request\<lparr> custom_code := None \<rparr>) generated_db
       = Some (Inl UniqueConstraintFailed)"
proof -
  have a: "createLink rnd now reused_request disabled_db = Some (Inl UniqueConstraintFailed)"
    by (simp add: createLink_def reused_request_def or_null_def getLinkByCode_def disabled_db_def
        demo_db_def demo_link_def insert_link_def)
  have b: "POST_links any_url_host rnd now reused_request disabled_db
           = Some (InternalError500, disabled_db)"
  proof -
    have "\<lparr> original_url_req = original_url_req reused_request,
            title_req = or_null (map_option trim (title_req reused_request)),
            description_req = or_null (map_option trim (description_req reused_request)),
            custom_code = or_null (map_option trim (custom_code reused_request)) \<rparr> = reused_request"
      by (simp add: reused_request_def or_null_def trim_def isWhiteSpace_def)
    then show ?thesis
      using a by (simp add: POST_links_def any_url_host_def)
        (simp add: reused_request_def or_null_def code_char_def)
  qed
  have c: "createLink [0,0,0,0,0,0,0,0] now (reused_request\<lparr> custom_code := None \<rparr>) generated_db
           = Some (Inl UniqueConstraintFailed)"
    by (simp add: createLink_def reused_request_def or_null_def generate_unique.simps gen_A
        getLinkByCode_def generated_db_def demo_db_def demo_link_def insert_link_def)
  from a b c show ?thesis by blast
qed

text \<open>
  The short codes of the table stay distinct all the same, an active link's code is
  refused as a conflict, and an inactive link's code is always refused by the constraint.
\<close>

lemma insert_link_distinct:
  "distinct (map short_code (links d)) \<Longrightarrow> insert_link now code url t ds d = Inr (l, d')
   \<Longrightarrow> distinct (map short_code (links d'))"
  by (auto simp: insert_link_def Let_def split: if_splits)

lemma createLink_distinct:
  "distinct (map short_code (links d)) \<Longrightarrow> createLink rnd now req d = Some (Inr (l, d'))
   \<Longrightarrow> distinct (map short_code (links d'))"
  by (auto simp: createLink_def split: option.splits if_splits dest: insert_link_distinct)

lemma createLink_conflict_active:
  "l \<in> set (links d) \<Longrightarrow> active l \<Longrightarrow> short_code l \<noteq> [] \<Longrightarrow>
   createLink rnd now (req\<lparr> custom_code := Some (short_code l) \<rparr>) d = Some (Inl CustomCodeExists)"
  by (auto simp: createLink_def or_null_def getLinkByCode_def find_None_iff)

lemma createLink_rejects_inactive:
  "l \<in> set (links d) \<Longrightarrow> short_code l \<noteq> [] \<Longrightarrow>
   list_all (\<lambda>k. short_code k = short_code l \<longrightarrow> \<not> active k) (links d) \<Longrightarrow>
   createLink rnd now (req\<lparr> custom_code := Some (short_code l) \<rparr>) d = Some (Inl UniqueConstraintFailed)"
  by (auto simp: createLink_def or_null_def getLinkByCode_def find_None_iff list_all_iff insert_link_def)

section \<open>Properties of the geolocation resolver\<close>

subsection \<open>Valid coordinates\<close>

text \<open>
  Claim C8, as stated, fails in both directions: the point at latitude 0 and longitude
  10 is in range and is not (0, 0), and the check rejects it; and a latitude that is
  missing because it is \<open>null\<close> is accepted.
\<close>

theorem isValidCoordinates_equator_counterexample:
  "claimed_valid (Number 0) (Number 10) \<and> \<not> isValidCoordinates (Number 0) (Number 10)
   \<and> \<not> claimed_valid Null (Number 10) \<and> isValidCoordinates Null (Number 10)"
  by (simp add: claimed_valid_def isValidCoordinates_def)

text \<open>
  Claim C8, amended. The check accepts a pair exactly when each of the two coordinates
  is either \<open>null\<close> or a number that lies within its bound (90 for the latitude, 180 for
  the longitude) and is not 0. So it rejects \<open>undefined\<close>, \<open>NaN\<close>, the infinities, every
  number out of range, and every pair with a coordinate that is 0: next to what the
  specification rejects, every point on the equator and on the prime meridian. A
  coordinate that is \<open>null\<close> passes every test, even when both are \<open>null\<close>.
\<close>

theorem isValidCoordinates_exact:
  "isValidCoordinates la lo = (accepted_coordinate 90 la \<and> accepted_coordinate 180 lo)
   \<and> isValidCoordinates (Number a) (Number b)
       = (- 90 \<le> a \<and> a \<le> 90 \<and> - 180 \<le> b \<and> b \<le> 180 \<and> a \<noteq> 0 \<and> b \<noteq> 0)
   \<and> isValidCoordinates (Number a) (Number b)
       = (claimed_valid (Number a) (Number b) \<and> a \<noteq> 0 \<and> b \<noteq> 0)
   \<and> \<not> isValidCoordinates Undefined lo \<and> \<not> isValidCoordinates la Undefined
   \<and> \<not> isValidCoordinates NaN lo \<and> \<not> isValidCoordinates la NaN
   \<and> isValidCoordinates Null Null"
proof -
  have a: "isValidCoordinates la lo = (accepted_coordinate 90 la \<and> accepted_coordinate 180 lo)"
    for la lo
    by (cases la; cases lo) (auto simp: isValidCoordinates_def)
  have b: "isValidCoordinates (Number a) (Number b)
       = (claimed_valid (Number a) (Number b) \<and> a \<noteq> 0 \<and> b \<noteq> 0)"
    by (auto simp: isValidCoordinates_def claimed_valid_def)
  have c: "isValidCoordinates (Number a) (Number b)
       = (- 90 \<le> a \<and> a \<le> 90 \<and> - 180 \<le> b \<and> b \<le> 180 \<and> a \<noteq> 0 \<and> b \<noteq> 0)"
    by (auto simp: isValidCoordinates_def)
  have d: "\<not> isValidCoordinates Undefined lo" "\<not> isValidCoordinates la Undefined"
    "\<not> isValidCoordinates NaN lo" "\<not> isValidCoordinates la NaN"
    "isValidCoordinates Null Null"
    by (simp_all add: isValidCoordinates_def)
  from a[of la lo] b c d show ?thesis by blast
qed

subsection \<open>Private addresses\<close>

lemma below_ten:
  "k < 10 \<Longrightarrow> k = 0 \<or> k = 1 \<or> k = 2 \<or> k = 3 \<or> k = 4 \<or> k = 5 \<or> k = 6 \<or> k = 7 \<or> k = 8 \<or> k = (9::nat)"
  by arith

lemma digit_char_value: "k < 10 \<Longrightarrow> digit_value (digit_char k) = Some k"
  by (drule below_ten) (auto simp: digit_char_def digit_value_def)

lemma digit_char_neq:
  "k < 10 \<Longrightarrow> digit_char k \<noteq> CHR ''.'' \<and> digit_char k \<noteq> CHR ''-''
     \<and> digit_char k \<noteq> CHR ''+'' \<and> digit_char k \<noteq> CHR ''x''
     \<and> digit_char k \<noteq> CHR ''X'' \<and> digit_char k \<noteq> CHR '':''
     \<and> \<not> isWhiteSpace (digit_char k)"
  by (drule below_ten) (auto simp: digit_char_def isWhiteSpace_def)

lemma decimal_dec: "decimal (dec n)"
proof (induction n rule: dec.induct)
  case (1 n)
  show ?case
  proof (cases "n < 10")
    case True
    then show ?thesis by (subst dec.simps) (auto simp: decimal_def)
  next
    case False
    have "n mod 10 < 10" by simp
    then have "\<exists>k::nat. k < 10 \<and> digit_char (n mod 10) = digit_char k" by blast
    with 1 False show ?thesis
      by (subst dec.simps) (simp add: decimal_def)
  qed
qed

lemma digits_value_snoc:
  "digits_value r (xs @ [c]) = digits_value r xs * r + (case digit_value c of None \<Rightarrow> 0 | Some v \<Rightarrow> v)"
  by (simp add: digits_value_def)

lemma digits_value_dec: "digits_value 10 (dec n) = n"
proof (induction n rule: dec.induct)
  case (1 n)
  show ?case
  proof (cases "n < 10")
    case True
    then show ?thesis by (subst dec.simps) (simp add: digits_value_def digit_char_value)
  next
    case False
    have "n mod 10 < 10" by simp
    from digit_char_value[OF this] 1 False show ?thesis
      by (subst dec.simps) (simp add: digits_value_snoc)
  qed
qed

lemma decimal_chars:
  assumes "decimal s" and "c \<in> set s"
  shows "is_digit 10 c" and "c \<noteq> CHR ''.''" and "c \<noteq> CHR ''-''" and "c \<noteq> CHR ''+''"
    and "c \<noteq> CHR ''x''" and "c \<noteq> CHR ''X''" and "c \<noteq> CHR '':''" and "\<not> isWhiteSpace c"
proof -
  from assms obtain k :: nat where k: "k < 10" "c = digit_char k"
    by (auto simp: decimal_def list_all_iff)
  show "is_digit 10 c" using k digit_char_value[of k] by (simp add: is_digit_def)
  show "c \<noteq> CHR ''.''" "c \<noteq> CHR ''-''" "c \<noteq> CHR ''+''" "c \<noteq> CHR ''x''" "c \<noteq> CHR ''X''"
    "c \<noteq> CHR '':''" "\<not> isWhiteSpace c"
    using k digit_char_neq[of k] by simp_all
qed

lemma parseInt_decimal:
  assumes "decimal s"
  shows "parseInt s = Some (int (digits_value 10 s))"
proof -
  from assms obtain c r where s: "s = c # r" by (cases s) (auto simp: decimal_def)
  have c: "c \<in> set s" using s by simp
  note cs = decimal_chars[OF assms c]
  have ws: "dropWhile isWhiteSpace s = s" using s cs by simp
  have sign: "take (Suc 0) s \<noteq> ''-''" "take (Suc 0) s \<noteq> ''+''" using s cs by auto
  have hex: "take 2 s \<noteq> ''0x''" "take 2 s \<noteq> ''0X''"
  proof -
    have "CHR ''x'' \<notin> set s" "CHR ''X'' \<notin> set s" using decimal_chars[OF assms] by blast+
    moreover have "take 2 s = t \<Longrightarrow> set t \<subseteq> set s" for t using set_take_subset by metis
    ultimately show "take 2 s \<noteq> ''0x''" "take 2 s \<noteq> ''0X''" by auto
  qed
  have all: "takeWhile (is_digit 10) s = s"
    using decimal_chars(1)[OF assms] by (simp add: takeWhile_eq_all_conv)
  have "s \<noteq> []" using s by simp
  then show ?thesis
    by (simp add: parseInt_def Let_def ws sign hex all)
qed

lemma parseInt_dec: "parseInt (dec n) = Some (int n)"
  by (simp add: parseInt_decimal[OF decimal_dec] digits_value_dec)

lemma split_on_nonempty: "split_on d s \<noteq> []"
  by (induction s) (auto split: list.splits)

lemma split_on_no_sep: "d \<notin> set s \<Longrightarrow> split_on d s = [s]"
  by (induction s) auto

lemma split_on_append: "d \<notin> set a \<Longrightarrow> split_on d (a @ d # rest) = a # split_on d rest"
  by (induction a) (auto split: list.splits)

lemma dec_no_dot: "CHR ''.'' \<notin> set (dec n)"
  using decimal_chars(2)[OF decimal_dec] by blast

lemma split_dotted: "split_on (CHR ''.'') (dotted a b c d) = [dec a, dec b, dec c, dec d]"
  by (simp add: dotted_def split_on_append dec_no_dot split_on_no_sep)

lemma strip_dotted: "strip_mapped_prefix (dotted a b c d) = dotted a b c d"
proof -
  obtain x r where xr: "dec a = x # r" using decimal_dec[of a] by (cases "dec a") (auto simp: decimal_def)
  then have "x \<noteq> CHR '':''" using decimal_chars(7)[OF decimal_dec, of x a] by simp
  then show ?thesis by (auto simp: strip_mapped_prefix_def dotted_def xr)
qed

lemma isPrivateIP_dotted:
  "isPrivateIP (dotted a b c d) = (private_range a b \<or> dotted a b c d = ''127.0.0.1'')"
proof -
  have ne: "dotted a b c d \<noteq> ''::1''" "dotted a b c d \<noteq> ''localhost''"
  proof -
    have "length (split_on (CHR ''.'') (dotted a b c d)) = 4" by (simp add: split_dotted)
    moreover have "length (split_on (CHR ''.'') ''::1'') = 1" "length (split_on (CHR ''.'') ''localhost'') = 1"
      by simp_all
    ultimately show "dotted a b c d \<noteq> ''::1''" "dotted a b c d \<noteq> ''localhost''" by auto
  qed
  show ?thesis
    by (auto simp: isPrivateIP_def Let_def strip_dotted split_dotted parseInt_dec num_eq_def
        num_between_def private_range_def ne)
qed

lemma isPrivateIP_loopback: "isPrivateIP ''127.0.0.1''" "isPrivateIP ''::1''"
  by (simp_all add: isPrivateIP_def strip_mapped_prefix_def)

lemma dotted_example: "dotted 10 0 0 1 = ''10.0.0.1''"
  by (simp add: dotted_def dec.simps digit_char_def)

lemma getLocationFromIP_private:
  "isPrivateIP ip \<Longrightarrow> getLocationFromIP env ip made = (private_ip_location, made)"
  by (simp add: getLocationFromIP_def)

lemma getLocationWithFallback_private:
  assumes "isPrivateIP ip"
  shows "getLocationWithFallback env now ip st =
     (if resetTime (rateLimiter st) < now \<or> calls (rateLimiter st) < 900
      then (private_ip_location,
            \<lparr> rateLimiter = recordCall (snd (canMakeCall now (rateLimiter st))),
              external_calls = external_calls st \<rparr>)
      else (getFallbackLocation, st))"
  by (auto simp: getLocationWithFallback_def canMakeCall_def maxCalls_def Let_def
      getLocationFromIP_private[OF assms] private_ip_location_def)

text \<open>
  Claim C2, amended. For the loopback addresses and every address of the private
  ranges, \<open>getLocationWithFallback\<close> makes no external call, whatever the budget. It
  returns the \<open>private_ip\<close> sentinel when the budget allows a call (the hour has passed or
  fewer than 900 calls are counted), and the \<open>unknown\<close> sentinel when the budget is used
  up: the budget is consulted before the address is looked at.
\<close>

theorem private_ip_no_external_call:
  assumes "ip = ''127.0.0.1'' \<or> ip = ''::1'' \<or> (\<exists>a b c d. ip = dotted a b c d \<and> private_range a b)"
  shows "external_calls (snd (getLocationWithFallback env now ip st)) = external_calls st
     \<and> fst (getLocationWithFallback env now ip st)
         = (if resetTime (rateLimiter st) < now \<or> calls (rateLimiter st) < 900
            then private_ip_location else getFallbackLocation)"
proof -
  from assms have "isPrivateIP ip"
    using isPrivateIP_loopback isPrivateIP_dotted by auto
  from getLocationWithFallback_private[OF this] show ?thesis by simp
qed

text \<open>
  Claim C2, as stated, fails when the budget is used up: for 10.0.0.1 the result is
  the \<open>unknown\<close> sentinel, not the \<open>private_ip\<close> one.
\<close>

theorem private_ip_exhausted_counterexample:
  "''10.0.0.1'' = dotted 10 0 0 1 \<and> private_range 10 0
   \<and> fst (getLocationWithFallback offline 0 ''10.0.0.1'' exhausted) = getFallbackLocation
   \<and> status getFallbackLocation = Some ''unknown''
   \<and> status private_ip_location = Some ''private_ip''"
proof -
  have e: "''10.0.0.1'' = dotted 10 0 0 1"
    by (simp add: dotted_def dec.simps digit_char_def)
  have r: "private_range 10 0"
    by (simp add: private_range_def)
  have "isPrivateIP (dotted 10 0 0 1)"
    using r by (simp only: isPrivateIP_dotted simp_thms)
  then have p: "isPrivateIP ''10.0.0.1''"
    by (simp only: e)
  have f: "fst (getLocationWithFallback offline 0 ''10.0.0.1'' exhausted) = getFallbackLocation"
    by (simp add: getLocationWithFallback_private[OF p] exhausted_def)
  have s1: "status getFallbackLocation = Some ''unknown''"
    by (simp add: getFallbackLocation_def)
  have s2: "status private_ip_location = Some ''private_ip''"
    by (simp add: private_ip_location_def)
  from e r f s1 s2 show ?thesis by blast
qed

theorem private_ip_no_external_call_witness:
  "(\<exists>a b c d. ''192.168.1.20'' = dotted a b c d \<and> private_range a b)
   \<and> external_calls (snd (getLocationWithFallback offline 0 ''192.168.1.20'' fresh)) = []
   \<and> fst (getLocationWithFallback offline 0 ''192.168.1.20'' fresh) = private_ip_location"
proof -
  have d: "''192.168.1.20'' = dotted 192 168 1 20"
    by (simp add: dotted_def dec.simps digit_char_def)
  have h: "\<exists>a b c d. ''192.168.1.20'' = dotted a b c d \<and> private_range a b"
    using d by (auto simp: private_range_def)
  then have "''192.168.1.20'' = ''127.0.0.1'' \<or> ''192.168.1.20'' = ''::1''
       \<or> (\<exists>a b c d. ''192.168.1.20'' = dotted a b c d \<and> private_range a b)"
    by blast
  from private_ip_no_external_call[OF this, of offline 0 fresh] h show ?thesis
    by (simp add: fresh_def)
qed

section \<open>Properties of the numbers\<close>

subsection \<open>Floor and ceiling of a quotient of numerals\<close>

lemma floor_rat_numeral: "\<lfloor>(numeral a :: rat) / numeral b\<rfloor> = numeral a div numeral b"
  using floor_divide_of_int_eq[of "numeral a" "numeral b", where ?'a = rat] by simp

lemma floor_rat_one: "\<lfloor>(1 :: rat) / numeral b\<rfloor> = 1 div numeral b"
  using floor_divide_of_int_eq[of 1 "numeral b", where ?'a = rat] by simp

lemma ceiling_rat_numeral:
  "\<lceil>(numeral a :: rat) / numeral b\<rceil> = - ((- numeral a) div numeral b)"
  using ceiling_divide_eq_div[of "numeral a" "numeral b", where ?'a = rat] by simp

lemmas rat_rounding = floor_rat_numeral floor_rat_one ceiling_rat_numeral

text \<open>The rules that compute a double, an operation or a rounding on given numbers.\<close>

lemmas evaluate_double =
  double_def ulp_def ilog2_def lg_up.simps lg_down.simps round_even_def Let_def rat_rounding
  power_int_minus js_mul_def js_div_def js_add_def js_sub_def js_round_def

subsection \<open>The exponent and the error of a double\<close>

lemma two_powi_succ: "(2::rat) powi (k + 1) = 2 * 2 powi k"
  by (simp add: power_int_add)

lemma two_powi_pred: "(2::rat) powi (k - 1) = 2 powi k / 2"
  using power_int_add[of "2::rat" k "- 1"] by (simp add: power_int_minus)

lemma lg_up_bounds: "1 \<le> x \<Longrightarrow> 2 powi (lg_up x) \<le> x \<and> x < 2 powi (lg_up x + 1)"
proof (induction x rule: lg_up.induct)
  case (1 x)
  show ?case
  proof (cases "2 \<le> x")
    case True
    then have "1 \<le> x / 2" by simp
    from 1(1)[OF True this]
    have ih: "2 powi lg_up (x / 2) \<le> x / 2" "x / 2 < 2 powi (lg_up (x / 2) + 1)" by auto
    have s: "lg_up x = lg_up (x / 2) + 1" using True by (simp add: lg_up.simps[of x])
    from ih show ?thesis unfolding s two_powi_succ by linarith
  next
    case False
    with 1(2) show ?thesis by (simp add: lg_up.simps[of x])
  qed
qed

lemma lg_down_bounds:
  "0 < x \<Longrightarrow> x < 2 \<Longrightarrow> 2 powi (lg_down x) \<le> x \<and> x < 2 powi (lg_down x + 1)"
proof (induction x rule: lg_down.induct)
  case (1 x)
  show ?case
  proof (cases "0 < x \<and> x < 1")
    case True
    then have "0 < x * 2" "x * 2 < 2" by simp_all
    from 1(1)[OF True this]
    have ih: "2 powi lg_down (x * 2) \<le> x * 2" "x * 2 < 2 powi (lg_down (x * 2) + 1)" by auto
    have s: "lg_down x = lg_down (x * 2) - 1" using True by (simp add: lg_down.simps[of x])
    have e: "lg_down (x * 2) - 1 + 1 = lg_down (x * 2)" by simp
    from ih show ?thesis unfolding s e two_powi_pred two_powi_succ by linarith
  next
    case False
    with 1(2,3) show ?thesis by (simp add: lg_down.simps[of x])
  qed
qed

lemma ilog2_bounds:
  assumes "0 < x"
  shows "2 powi (ilog2 x) \<le> x" and "x < 2 powi (ilog2 x + 1)"
  using assms lg_up_bounds[of x] lg_down_bounds[of x] by (auto simp: ilog2_def)

lemma round_even_near: "\<bar>of_int (round_even r) - r\<bar> \<le> 1 / 2"
proof -
  have "of_int \<lfloor>r\<rfloor> \<le> r" "r < of_int \<lfloor>r\<rfloor> + 1" by linarith+
  then show ?thesis by (auto simp: round_even_def Let_def)
qed

lemma round_even_of_int: "round_even (of_int z) = z"
  by (simp add: round_even_def)

lemma ulp_pos: "0 < ulp x"
  by (simp add: ulp_def)

lemma double_ulp: "x \<noteq> 0 \<Longrightarrow> double x = sgn x * of_int (round_even (\<bar>x\<bar> / ulp x)) * ulp x"
  by (simp add: double_def)

lemma double_half_ulp: "\<bar>double x - x\<bar> \<le> ulp x / 2"
proof (cases "x = 0")
  case True
  then show ?thesis using ulp_pos[of 0] by (simp add: double_def)
next
  case False
  define q where "q = ulp x"
  define R where "R = round_even (\<bar>x\<bar> / q)"
  have q: "0 < q" by (simp add: q_def ulp_pos)
  have "\<bar>of_int R - \<bar>x\<bar> / q\<bar> \<le> 1 / 2" unfolding R_def by (rule round_even_near)
  then have "\<bar>of_int R - \<bar>x\<bar> / q\<bar> * q \<le> 1 / 2 * q"
    using q by (intro mult_right_mono) simp_all
  moreover have "\<bar>of_int R - \<bar>x\<bar> / q\<bar> * q = \<bar>of_int R * q - \<bar>x\<bar>\<bar>"
  proof -
    have "\<bar>of_int R - \<bar>x\<bar> / q\<bar> * q = \<bar>(of_int R - \<bar>x\<bar> / q) * q\<bar>"
      using q by (simp add: abs_mult)
    also have "(of_int R - \<bar>x\<bar> / q) * q = of_int R * q - \<bar>x\<bar>"
      using q by (simp add: left_diff_distrib)
    finally show ?thesis .
  qed
  ultimately have n: "\<bar>of_int R * q - \<bar>x\<bar>\<bar> \<le> q / 2" by simp
  have "double x - x = sgn x * (of_int R * q - \<bar>x\<bar>)"
  proof -
    have "double x = sgn x * (of_int R * q)"
      using False by (simp add: double_ulp q_def R_def mult.assoc)
    moreover have "x = sgn x * \<bar>x\<bar>" by (simp add: mult_sgn_abs)
    ultimately show ?thesis by (simp add: right_diff_distrib)
  qed
  then have "\<bar>double x - x\<bar> = \<bar>sgn x\<bar> * \<bar>of_int R * q - \<bar>x\<bar>\<bar>"
    by (simp only: abs_mult)
  also have "\<bar>sgn x\<bar> = 1" using False by (simp add: abs_sgn_eq)
  finally show ?thesis using n by (simp add: q_def)
qed

lemma tiny_ulp: "(2::rat) powi (- 1074) \<le> 1 / 2 ^ 127"
proof -
  have "(2::rat) powi (- 1074) \<le> 2 powi (- 127)"
    by (rule power_int_increasing) simp_all
  also have "(2::rat) powi (- 127) = 1 / 2 ^ 127"
    by (simp add: power_int_minus)
  finally show ?thesis .
qed

lemma ulp_le:
  assumes "x \<noteq> 0"
  shows "ulp x \<le> \<bar>x\<bar> / 2 ^ 52 + 1 / 2 ^ 127"
proof -
  define e where "e = ilog2 \<bar>x\<bar>"
  have b: "2 powi e \<le> \<bar>x\<bar>" unfolding e_def using assms by (intro ilog2_bounds) simp
  have s: "(2::rat) powi (e - 52) = 2 powi e / 2 ^ 52"
    using power_int_add[of "2::rat" e "- 52"] by (simp add: power_int_minus)
  have p: "0 < (2::rat) powi e" by simp
  show ?thesis
  proof (cases "e - 52 \<le> - 1074")
    case True
    then have "ulp x = 2 powi (- 1074)" by (simp only: ulp_def e_def max_def if_True)
    also note tiny_ulp
    finally show ?thesis using abs_ge_zero[of x] by (simp add: add_increasing)
  next
    case False
    then have "ulp x = 2 powi (e - 52)" by (simp only: ulp_def e_def max_def if_False)
    also have "\<dots> = 2 powi e / 2 ^ 52" by (rule s)
    also have "\<dots> \<le> \<bar>x\<bar> / 2 ^ 52" using b by (simp add: divide_right_mono)
    finally show ?thesis by simp
  qed
qed

lemma double_error: "\<bar>double x - x\<bar> \<le> \<bar>x\<bar> / 2 ^ 53 + 1 / 2 ^ 128"
proof (cases "x = 0")
  case True
  then show ?thesis by (simp add: double_def)
next
  case False
  have "\<bar>double x - x\<bar> \<le> ulp x / 2" by (rule double_half_ulp)
  also have "\<dots> \<le> (\<bar>x\<bar> / 2 ^ 52 + 1 / 2 ^ 127) / 2"
    using ulp_le[OF False] by simp
  also have "\<dots> = \<bar>x\<bar> / 2 ^ 53 + 1 / 2 ^ 128" by simp
  finally show ?thesis .
qed



lemma double_within: "\<bar>x\<bar> \<le> B \<Longrightarrow> \<bar>double x - x\<bar> \<le> B / 2 ^ 53 + 1 / 2 ^ 128"
proof -
  assume "\<bar>x\<bar> \<le> B"
  then have "\<bar>x\<bar> / 2 ^ 53 \<le> B / 2 ^ 53" by (simp add: divide_right_mono)
  with double_error[of x] show ?thesis by linarith
qed

lemma ilog2_range:
  assumes "1 \<le> x" and "x < 2 ^ 53"
  shows "0 \<le> ilog2 x" and "ilog2 x \<le> 52"
proof -
  have x: "0 < x" using assms(1) by simp
  note b = ilog2_bounds[OF x]
  show "0 \<le> ilog2 x"
  proof (rule ccontr)
    assume "\<not> 0 \<le> ilog2 x"
    then have "ilog2 x + 1 \<le> 0" by simp
    then have "(2::rat) powi (ilog2 x + 1) \<le> 2 powi 0"
      by (rule power_int_increasing) simp
    with b(2) assms(1) show False by simp
  qed
  show "ilog2 x \<le> 52"
  proof (rule ccontr)
    assume "\<not> ilog2 x \<le> 52"
    then have "53 \<le> ilog2 x" by simp
    then have "(2::rat) powi 53 \<le> 2 powi ilog2 x"
      by (rule power_int_increasing) simp
    moreover have "(2::rat) powi 53 = 2 ^ 53" by simp
    ultimately show False using b(1) assms(2) by linarith
  qed
qed

lemma double_of_int:
  assumes "\<bar>i\<bar> < 2 ^ 53"
  shows "double (of_int i) = of_int i"
proof (cases "i = 0")
  case True
  then show ?thesis by (simp add: double_def)
next
  case False
  define a :: rat where "a = \<bar>of_int i\<bar>"
  define e where "e = ilog2 a"
  define k where "k = nat (52 - e)"
  have a: "a = of_int \<bar>i\<bar>" by (simp add: a_def)
  have "1 \<le> \<bar>i\<bar>" using False by simp
  then have a1: "1 \<le> a" unfolding a by (simp only: of_int_1_le_iff)
  have "a < of_int (2 ^ 53)" unfolding a using assms by (simp only: of_int_less_iff)
  then have a2: "a < 2 ^ 53" by simp
  note r = ilog2_range[OF a1 a2, folded e_def]
  have ek: "e - 52 = - int k" using r by (simp add: k_def)
  have "ulp (of_int i) = 2 powi (e - 52)"
    using r by (simp add: ulp_def e_def a_def max_def)
  also have "\<dots> = inverse (2 ^ k)" unfolding ek by (simp add: power_int_minus)
  finally have u: "ulp (of_int i) = inverse (2 ^ k)" .
  have "a / ulp (of_int i) = of_int (\<bar>i\<bar> * 2 ^ k)"
    by (simp add: u a divide_inverse)
  then have "round_even (a / ulp (of_int i)) = \<bar>i\<bar> * 2 ^ k"
    by (simp only: round_even_of_int)
  then have "double (of_int i) = sgn (of_int i) * of_int (\<bar>i\<bar> * 2 ^ k) * inverse (2 ^ k)"
    using False by (simp add: double_ulp a_def u)
  also have "\<dots> = sgn (of_int i) * \<bar>of_int i\<bar>" by simp
  also have "\<dots> = of_int i" by (simp only: mult_sgn_abs)
  finally show ?thesis .
qed

lemma double_of_nat: "n < 2 ^ 53 \<Longrightarrow> double (of_nat n) = of_nat n"
  using double_of_int[of "int n"] by simp

text \<open>The quotient of a whole number of milliseconds by the length of a day.\<close>

lemma ceiling_double_days:
  assumes "\<bar>d\<bar> < 2 ^ 53"
  shows "\<lceil>double (of_int d / of_int day_ms)\<rceil> = \<lceil>(of_int d :: rat) / of_int day_ms\<rceil>"
proof (cases "day_ms dvd d")
  case True
  then obtain j where j: "d = day_ms * j" by (auto simp: dvd_def)
  then have q: "(of_int d :: rat) / of_int day_ms = of_int j" by (simp add: day_ms_def)
  have "\<bar>j\<bar> \<le> \<bar>d\<bar>" using j by (simp add: day_ms_def abs_mult)
  with assms have "\<bar>j\<bar> < 2 ^ 53" by linarith
  then show ?thesis unfolding q by (simp only: double_of_int)
next
  case False
  define x :: rat where "x = of_int d / 86400000"
  define c where "c = \<lceil>x\<rceil>"
  have m: "(of_int day_ms :: rat) = 86400000" by (simp add: day_ms_def)
  have dx: "(of_int d :: rat) = 86400000 * x" by (simp add: x_def)
  have up: "x \<le> of_int c" unfolding c_def by linarith
  have lo: "of_int c - 1 < x" unfolding c_def by linarith
  have ne: "d \<noteq> 86400000 * j" for j using False by (auto simp: day_ms_def dvd_def)
  have "(of_int d :: rat) \<le> of_int (86400000 * c)" using up dx by simp
  then have "d \<le> 86400000 * c" by (simp only: of_int_le_iff)
  with ne[of c] have "d + 1 \<le> 86400000 * c" by linarith
  then have "(of_int (d + 1) :: rat) \<le> of_int (86400000 * c)" by (simp only: of_int_le_iff)
  then have up': "x + 1 / 86400000 \<le> of_int c" using dx by simp
  have "(of_int (86400000 * (c - 1)) :: rat) < of_int d" using lo dx by simp
  then have "86400000 * (c - 1) < d" by (simp only: of_int_less_iff)
  then have "86400000 * (c - 1) + 1 \<le> d" by linarith
  then have "(of_int (86400000 * (c - 1) + 1) :: rat) \<le> of_int d" by (simp only: of_int_le_iff)
  then have lo': "of_int c - 1 + 1 / 86400000 \<le> x" using dx by simp
  have "\<bar>d\<bar> \<le> 2 ^ 53 - 1" using assms by simp
  then have "(of_int \<bar>d\<bar> :: rat) \<le> of_int (2 ^ 53 - 1)" by (simp only: of_int_le_iff)
  then have "\<bar>86400000 * x\<bar> \<le> 2 ^ 53 - 1" using dx by simp
  then have ax: "\<bar>x\<bar> \<le> (2 ^ 53 - 1) / 86400000" by (simp add: abs_mult)
  from double_within[OF ax]
  have err: "\<bar>double x - x\<bar> < 1 / 86400000" by simp
  have "of_int c - 1 < double x" "double x \<le> of_int c" using err up' lo' by linarith+
  then have "\<lceil>double x\<rceil> = c" by (intro ceiling_unique) simp_all
  then show ?thesis by (simp add: m x_def c_def)
qed

subsection \<open>The accuracy of the rounded quotients\<close>

lemma js_round_near: "of_int (js_round b) \<le> b + 1 / 2" "b - 1 / 2 < of_int (js_round b)"
  unfolding js_round_def by linarith+

lemma double_between:
  assumes "\<bar>x\<bar> \<le> B" and "B / 2 ^ 53 + 1 / 2 ^ 128 \<le> e"
  shows "x - e \<le> double x" and "double x \<le> x + e"
  using double_within[OF assms(1)] assms(2) by linarith+

lemma percentage_of_near:
  assumes "n \<le> t"
  shows "\<bar>percentage_of n t - 100 * of_nat n / of_nat t\<bar> \<le> 1 / 200 + 1 / 100000000000"
proof (cases "0 < t")
  case False
  then show ?thesis by (simp add: percentage_of_def)
next
  case True
  define x :: rat where "x = of_nat n / of_nat t"
  define q where "q = double x"
  define a where "a = double (q * 100)"
  define b where "b = double (a * 100)"
  define r where "r = js_round b"
  define p where "p = double (of_int r / 100)"
  have x: "0 \<le> x" "x \<le> 1" using assms True by (simp_all add: x_def)
  then have "\<bar>x\<bar> \<le> 1" by simp
  then have q: "x - 1 / 1000000000000000 \<le> q" "q \<le> x + 1 / 1000000000000000"
    unfolding q_def by (rule double_between; simp)+
  from q x have "\<bar>q * 100\<bar> \<le> 200" by linarith
  then have a: "q * 100 - 1 / 10000000000000 \<le> a" "a \<le> q * 100 + 1 / 10000000000000"
    unfolding a_def by (rule double_between; simp)+
  from a q x have "\<bar>a * 100\<bar> \<le> 20000" by linarith
  then have b: "a * 100 - 1 / 100000000000 \<le> b" "b \<le> a * 100 + 1 / 100000000000"
    unfolding b_def by (rule double_between; simp)+
  note r = js_round_near[of b, folded r_def]
  from b a q x r have "\<bar>of_int r / 100\<bar> \<le> (200::rat)" by linarith
  then have p: "of_int r / 100 - 1 / 10000000000000 \<le> p" "p \<le> of_int r / 100 + 1 / 10000000000000"
    unfolding p_def by (rule double_between; simp)+
  from p r b a q have "\<bar>p - 100 * x\<bar> \<le> 1 / 200 + 1 / 100000000000" by linarith
  moreover have "percentage_of n t = p"
    using True
    by (simp add: percentage_of_def js_div_def js_mul_def p_def r_def b_def a_def q_def x_def)
  ultimately show ?thesis by (simp add: x_def)
qed

lemma double_of_int_numeral: "\<bar>i\<bar> < 9007199254740992 \<Longrightarrow> double (of_int i) = of_int i"
  by (rule double_of_int) simp

lemma per_unit_zero: "per_unit 0 d = 0"
  by (simp add: per_unit_def js_div_def js_mul_def js_round_def double_def floor_rat_one)

lemma per_unit_near:
  assumes "n < 2 ^ 32" and "1 \<le> d"
  shows "\<bar>per_unit n d - of_nat n / of_int d\<bar> \<le> 1 / 200 + 1 / 50000"
proof -
  define x :: rat where "x = of_nat n / of_int d"
  define q where "q = double x"
  define a where "a = double (q * 100)"
  define r where "r = js_round a"
  define p where "p = double (of_int r / 100)"
  have d: "(1::rat) \<le> of_int d" using assms(2) by simp
  have "(of_nat n :: rat) \<le> of_nat (2 ^ 32)" using assms(1) by (simp only: of_nat_le_iff)
  then have n: "(of_nat n :: rat) \<le> 4294967296" by simp
  have x0: "0 \<le> x" using d by (simp add: x_def)
  have "x \<le> of_nat n"
  proof -
    have "(of_nat n :: rat) / of_int d \<le> of_nat n / 1"
      using d by (intro divide_left_mono) simp_all
    then show ?thesis by (simp add: x_def)
  qed
  with n have x1: "x \<le> 4294967296" by linarith
  from x0 x1 have "\<bar>x\<bar> \<le> 4294967296" by linarith
  then have q: "x - 1 / 1000000 \<le> q" "q \<le> x + 1 / 1000000"
    unfolding q_def by (rule double_between; simp)+
  from q x0 x1 have "\<bar>q * 100\<bar> \<le> 500000000000" by linarith
  then have a: "q * 100 - 1 / 10000 \<le> a" "a \<le> q * 100 + 1 / 10000"
    unfolding a_def by (rule double_between; simp)+
  note r = js_round_near[of a, folded r_def]
  from a q x0 x1 r have "\<bar>of_int r / 100\<bar> \<le> (10000000000::rat)" by linarith
  then have p: "of_int r / 100 - 1 / 100000 \<le> p" "p \<le> of_int r / 100 + 1 / 100000"
    unfolding p_def by (rule double_between; simp)+
  from p r a q have "\<bar>p - x\<bar> \<le> 1 / 200 + 1 / 50000" by linarith
  moreover have "per_unit n d = p"
    by (simp add: per_unit_def js_div_def js_mul_def p_def r_def a_def q_def x_def)
  ultimately show ?thesis by (simp add: x_def)
qed

section \<open>Properties of the analytics\<close>

subsection \<open>Counting in a \<open>Map\<close>\<close>

lemma map_of_map_set: "map_of (map_set m k v) k' = (if k' = k then Some v else map_of m k')"
  by (induction m) auto

lemma keys_map_set:
  "map fst (map_set m k v) = (if k \<in> set (map fst m) then map fst m else map fst m @ [k])"
  by (induction m) (auto simp: rev_image_eqI)

lemma get_or_0_Nil: "get_or_0 [] k = 0"
  by (simp add: get_or_0_def)

lemma get_or_0_count_up:
  "get_or_0 (count_up m k) k' = get_or_0 m k' + (if k' = k then 1 else 0)"
  by (simp add: get_or_0_def count_up_def map_of_map_set)

lemma get_or_0_fold_count_up:
  "get_or_0 (fold (\<lambda>x m. count_up m (f x)) xs m0) k
   = get_or_0 m0 k + length (filter (\<lambda>x. f x = k) xs)"
  by (induction xs arbitrary: m0) (auto simp: get_or_0_count_up)

subsection \<open>The trend series\<close>

lemma day_ms_pos: "0 < day_ms"
  by (simp add: day_ms_def)

lemma iso_date_shift: "iso_date (t + k * day_ms) = iso_date t + k"
  using day_ms_pos by (simp add: iso_date_def)

lemma range_start: "iso_date (now - days * day_ms + int i * day_ms) = iso_date now - days + int i"
proof -
  have "now - days * day_ms + int i * day_ms = now + (int i - days) * day_ms"
    by (simp add: algebra_simps)
  then have "iso_date (now - days * day_ms + int i * day_ms)
             = iso_date (now + (int i - days) * day_ms)"
    by (rule arg_cong)
  also have "\<dots> = iso_date now + (int i - days)"
    by (rule iso_date_shift)
  finally show ?thesis by simp
qed

text \<open>Up to 100 000 000 days the milliseconds are computed without rounding.\<close>

lemma js_mul_exact:
  "\<bar>a * b\<bar> < 9007199254740992 \<Longrightarrow> js_mul (of_int a) (of_int b) = of_int (a * b)"
proof -
  assume "\<bar>a * b\<bar> < 9007199254740992"
  then have "double (of_int (a * b)) = of_int (a * b)" by (rule double_of_int_numeral)
  then show ?thesis by (simp only: js_mul_def of_int_mult)
qed

lemma days_to_ms_exact:
  assumes "\<bar>k\<bar> \<le> 100000000"
  shows "days_to_ms (of_int k) = of_int (k * day_ms)"
proof -
  have a: "js_mul (of_int k) (of_int 24) = of_int (k * 24)"
    using assms by (intro js_mul_exact) linarith
  have b: "js_mul (of_int (k * 24)) (of_int 60) = of_int (k * 24 * 60)"
    using assms by (intro js_mul_exact) linarith
  have c: "js_mul (of_int (k * 24 * 60)) (of_int 60) = of_int (k * 24 * 60 * 60)"
    using assms by (intro js_mul_exact) linarith
  have d: "js_mul (of_int (k * 24 * 60 * 60)) (of_int 1000) = of_int (k * 24 * 60 * 60 * 1000)"
    using assms by (intro js_mul_exact) linarith
  have "days_to_ms (of_int k)
        = js_mul (js_mul (js_mul (js_mul (of_int k) (of_int 24)) (of_int 60)) (of_int 60))
            (of_int 1000)"
    by (simp only: days_to_ms_def of_int_numeral)
  also have "\<dots> = of_int (k * 24 * 60 * 60 * 1000)" by (simp only: a b c d)
  also have "k * 24 * 60 * 60 * 1000 = k * day_ms" by (simp add: day_ms_def)
  finally show ?thesis .
qed

lemma TimeClip_of_int: "\<bar>t\<bar> \<le> max_time \<Longrightarrow> TimeClip (of_int t) = Some t"
proof -
  assume "\<bar>t\<bar> \<le> max_time"
  then have "\<bar>of_int t :: rat\<bar> \<le> of_int max_time"
    by (simp only: of_int_abs[symmetric] of_int_le_iff)
  then show ?thesis by (simp add: TimeClip_def)
qed

lemma TimeClip_out_of_range: "max_time < \<bar>t\<bar> \<Longrightarrow> TimeClip (of_int t) = None"
proof -
  assume "max_time < \<bar>t\<bar>"
  then have "of_int max_time < \<bar>of_int t :: rat\<bar>"
    by (simp only: of_int_abs[symmetric] of_int_less_iff)
  then show ?thesis by (simp add: TimeClip_def)
qed

lemma max_time_exact: "\<bar>t\<bar> \<le> max_time \<Longrightarrow> double (of_int t) = of_int t"
  by (rule double_of_int_numeral) (simp add: max_time_def)

lemma startDate_valid:
  assumes "0 \<le> now" and "now \<le> max_time" and "0 \<le> days" and "days \<le> 100000000"
  shows "TimeClip (js_sub (of_int now) (days_to_ms (of_int days))) = Some (now - days * day_ms)"
proof -
  have r: "\<bar>now - days * day_ms\<bar> \<le> max_time"
    using assms by (simp add: day_ms_def max_time_def)
  have "js_sub (of_int now) (days_to_ms (of_int days)) = double (of_int (now - days * day_ms))"
    using assms by (simp add: js_sub_def days_to_ms_exact)
  also have "\<dots> = of_int (now - days * day_ms)" by (rule max_time_exact[OF r])
  finally show ?thesis by (simp only: TimeClip_of_int[OF r])
qed

lemma round_valid:
  assumes "0 \<le> now" and "now \<le> max_time" and "days \<le> 100000000" and "i < nat days"
  shows "TimeClip (js_add (of_int (now - days * day_ms)) (days_to_ms (of_nat i)))
         = Some (now - days * day_ms + int i * day_ms)"
proof -
  have i: "int i < days" using assms(4) by simp
  have r: "\<bar>now - days * day_ms + int i * day_ms\<bar> \<le> max_time"
    using assms(1-3) i by (simp add: day_ms_def max_time_def)
  have "days_to_ms (of_nat i) = days_to_ms (of_int (int i))" by simp
  also have "\<dots> = of_int (int i * day_ms)"
    using assms(3) i by (intro days_to_ms_exact) simp
  finally have "js_add (of_int (now - days * day_ms)) (days_to_ms (of_nat i))
        = double (of_int (now - days * day_ms + int i * day_ms))"
    by (simp add: js_add_def)
  also have "\<dots> = of_int (now - days * day_ms + int i * day_ms)" by (rule max_time_exact[OF r])
  finally show ?thesis by (simp only: TimeClip_of_int[OF r])
qed



lemma collect_values: "collect (map (\<lambda>x. Inr (f x)) xs) = Inr (map f xs)"
  by (induction xs) simp_all


lemma calculateClickTrends_eq:
  assumes "0 \<le> now" and "now \<le> max_time" and "days \<le> 100000000"
  shows "calculateClickTrends host now clickEvents days =
   Inr (map (\<lambda>i. \<lparr> date = iso_date now - days + int i,
               clicks_ts = length (filter (\<lambda>c. iso_date (click_time host c)
                                                = iso_date now - days + int i)
                                     clickEvents) \<rparr>) [0..<nat days])"
proof (cases "0 \<le> days")
  case True
  note s = startDate_valid[OF assms(1,2) True assms(3)]
  have p: "toISOString_date
             (TimeClip (js_add (of_int (now - days * day_ms)) (days_to_ms (of_nat i))))
           = Inr (iso_date now - days + int i)" if "i < nat days" for i
    by (simp only: round_valid[OF assms that] toISOString_date_def option.case range_start)
  have "map (\<lambda>i. toISOString_date
                   (TimeClip (js_add (of_int (now - days * day_ms)) (days_to_ms (of_nat i)))))
          [0..<nat days]
        = map (\<lambda>i. Inr (iso_date now - days + int i)) [0..<nat days]"
    by (rule map_cong[OF refl], rule p, simp)
  then have "collect (map (\<lambda>i. toISOString_date
                   (TimeClip (js_add (of_int (now - days * day_ms)) (days_to_ms (of_nat i)))))
          [0..<nat days]) = Inr (map (\<lambda>i. iso_date now - days + int i) [0..<nat days])"
    by (simp only: collect_values)
  then show ?thesis
    by (simp add: calculateClickTrends_def s Let_def get_or_0_fold_count_up get_or_0_Nil comp_def)
next
  case False
  then show ?thesis by (simp add: calculateClickTrends_def Let_def)
qed









subsection \<open>The average of the summary\<close>

lemma length_map_set: "length m \<le> length (map_set m k v)"
  by (induction m) auto

lemma length_fold_count_up: "length m0 \<le> length (fold (\<lambda>x m. count_up m (f x)) xs m0)"
proof (induction xs arbitrary: m0)
  case Nil
  then show ?case by simp
next
  case (Cons x xs)
  have "length m0 \<le> length (count_up m0 (f x))"
    by (simp add: count_up_def length_map_set)
  also have "\<dots> \<le> length (fold (\<lambda>x m. count_up m (f x)) xs (count_up m0 (f x)))"
    by (rule Cons.IH)
  finally show ?case by simp
qed

lemma hourly_nonempty: "calculateHourlyDistribution host cs \<noteq> []"
  using length_fold_count_up[of "map (\<lambda>i. (i, 0)) [0..<24]"
      "\<lambda>c. getHours host (click_time host c)" cs]
  by (auto simp: calculateHourlyDistribution_def)

lemma weekly_nonempty: "calculateWeeklyDistribution host cs \<noteq> []"
  using length_fold_count_up[of "map (\<lambda>i. (i, 0)) [0..<7]"
      "\<lambda>c. getDay host (click_time host c)" cs]
  by (auto simp: calculateWeeklyDistribution_def)

lemma reduce_nonempty: "xs \<noteq> [] \<Longrightarrow> \<exists>y. reduce f xs = Inr y"
  by (cases xs) (simp_all add: reduce_def)

lemma calculatePeakTimes_returns: "\<exists>p. calculatePeakTimes host cs = Inr p"
proof -
  obtain h where h: "reduce (\<lambda>mx current. if clicks_h current > clicks_h mx then current else mx)
                (calculateHourlyDistribution host cs) = Inr h"
    using reduce_nonempty[OF hourly_nonempty] by blast
  obtain w where w: "reduce (\<lambda>mx current. if clicks_d current > clicks_d mx then current else mx)
                (calculateWeeklyDistribution host cs) = Inr w"
    using reduce_nonempty[OF weekly_nonempty] by blast
  show ?thesis by (simp add: calculatePeakTimes_def Let_def h w)
qed

lemma newest_first_last_is_oldest:
  fixes g :: "'a \<Rightarrow> int"
  assumes "sorted_wrt (\<lambda>a b. g b \<le> g a) cs" and "cs \<noteq> []"
  shows "Min (set (map g cs)) = g (last cs)"
proof (rule Min_eqI)
  show "finite (set (map g cs))" by simp
  show "g (last cs) \<in> set (map g cs)" using assms(2) by simp
  fix y assume "y \<in> set (map g cs)"
  then obtain c where c: "c \<in> set cs" "y = g c" by auto
  from assms have "g (last cs) \<le> g c" using c(1)
  proof (induction cs)
    case Nil
    then show ?case by simp
  next
    case (Cons x xs)
    show ?case
    proof (cases "xs = []")
      case True
      with Cons.prems show ?thesis by simp
    next
      case False
      with Cons.prems have lx: "g (last xs) \<le> g x" by simp
      show ?thesis
      proof (cases "c = x")
        case True
        with lx False show ?thesis by simp
      next
        case False
        with Cons.prems have "c \<in> set xs" by simp
        with Cons.IH Cons.prems \<open>xs \<noteq> []\<close> show ?thesis by simp
      qed
    qed
  qed
  then show "g (last cs) \<le> y" using c by simp
qed

text \<open>The recent clicks of \<open>getLinkAnalytics\<close> stand newest first, by the text of their timestamps.\<close>

lemma recentClicks_newest_first:
  assumes "getLinkAnalytics d linkId = Some a"
  shows "sorted_wrt (\<lambda>x y. timestamp y \<le> timestamp x) (recentClicks a)"
proof -
  let ?own = "filter (\<lambda>c. link_id c = linkId) (clicks_tbl d)"
  have "sorted (map (\<lambda>c. - timestamp c) (sort_key (\<lambda>c. - timestamp c) ?own))"
    by (rule sorted_sort_key)
  then have "sorted_wrt (\<lambda>x y. timestamp y \<le> timestamp x) (sort_key (\<lambda>c. - timestamp c) ?own)"
    by (simp add: sorted_map)
  then have "sorted_wrt (\<lambda>x y. timestamp y \<le> timestamp x)
               (take 20 (sort_key (\<lambda>c. - timestamp c) ?own))"
    by (rule sorted_wrt_take)
  moreover have "recentClicks a = take 20 (sort_key (\<lambda>c. - timestamp c) ?own)"
    using assms by (auto simp: getLinkAnalytics_def Let_def split: option.splits)
  ultimately show ?thesis by simp
qed

text \<open>The quotient that \<open>generateAnalyticsSummary\<close> rounds up to whole days has no error.\<close>

lemma span_exact:
  assumes "\<bar>now - t\<bar> < 2 ^ 53"
  shows "max 1 \<lceil>js_div (js_sub (of_int now) (of_int t)) (of_int day_ms)\<rceil> = span_days now t"
proof -
  have "js_sub (of_int now) (of_int t) = double (of_int (now - t))" by (simp add: js_sub_def)
  also have "\<dots> = of_int (now - t)" by (rule double_of_int[OF assms])
  finally have "js_div (js_sub (of_int now) (of_int t)) (of_int day_ms)
                = double (of_int (now - t) / of_int day_ms)"
    by (simp only: js_div_def)
  then show ?thesis by (simp only: ceiling_double_days[OF assms] span_days_def)
qed

lemma span_days_pos: "1 \<le> span_days now t"
  by (simp add: span_days_def)

lemma summary_average:
  "\<exists>s. generateAnalyticsSummary host now clickEvents = Inr s
     \<and> totalClicks_s s = length clickEvents
     \<and> avgClicksPerDay s =
         per_unit (length clickEvents)
           (if clickEvents = [] then 1
            else max 1 \<lceil>js_div (js_sub (of_int now)
                                  (of_int (click_time host (last clickEvents))))
                           (of_int day_ms)\<rceil>)"
proof -
  obtain p where p: "calculatePeakTimes host clickEvents = Inr p"
    using calculatePeakTimes_returns by blast
  show ?thesis
    by (auto simp: generateAnalyticsSummary_def Let_def p)
qed

lemma summary_average_span:
  assumes "clickEvents \<noteq> []" and "\<bar>now - click_time host (last clickEvents)\<bar> < 2 ^ 53"
  shows "\<exists>s. generateAnalyticsSummary host now clickEvents = Inr s
     \<and> avgClicksPerDay s
         = per_unit (length clickEvents) (span_days now (click_time host (last clickEvents)))"
  using summary_average[of host now clickEvents] assms(1) by (auto simp: span_exact[OF assms(2)])

text \<open>
  Two events a day for one day give the average 2; two events in ten days the double
  nearest to 0.2; and 23 events in 40 days give 0.57, where the quotient 0.575 rounds to
  0.58: the product \<open>(23 / 40) * 100\<close> is 57.49999999999999 in doubles.
\<close>

lemma per_unit_examples:
  "per_unit 2 1 = 2"
  "per_unit 2 10 = 3602879701896397 / 18014398509481984"
  "per_unit 23 40 = 5134103575202365 / 9007199254740992"
  by (simp_all add: per_unit_def evaluate_double)

text \<open>
  Claim C7, amended. \<open>generateAnalyticsSummary\<close> always returns. Its average is 0 for the
  empty list. For a list with events it is \<open>Math.round((n / span) * 100) / 100\<close> in double
  arithmetic, where \<open>n\<close> is the number of events and \<open>span\<close> the days between the last
  event of the list and now, rounded up to whole days and at least 1 (there the doubles
  make no error, the two instants being less than \<open>2 ^ 53\<close> ms apart). That value lies
  within 0.005 + 0.00002 of the quotient \<open>n / span\<close>; it is not always the quotient rounded
  to two decimals (see \<open>per_unit_examples\<close>). When the list is ordered newest first, the
  last event is the oldest one.
\<close>

theorem avgClicksPerDay_from_last:
  "\<exists>s. generateAnalyticsSummary host now clickEvents = Inr s
     \<and> totalClicks_s s = length clickEvents
     \<and> (clickEvents = [] \<longrightarrow> avgClicksPerDay s = 0)
     \<and> (clickEvents \<noteq> [] \<and> \<bar>now - click_time host (last clickEvents)\<bar> < 2 ^ 53 \<longrightarrow>
          avgClicksPerDay s
          = per_unit (length clickEvents) (span_days now (click_time host (last clickEvents))))
     \<and> (clickEvents \<noteq> [] \<and> \<bar>now - click_time host (last clickEvents)\<bar> < 2 ^ 53
          \<and> length clickEvents < 2 ^ 32 \<longrightarrow>
          \<bar>avgClicksPerDay s - of_nat (length clickEvents)
              / of_int (span_days now (click_time host (last clickEvents)))\<bar>
          \<le> 1 / 200 + 1 / 50000)
     \<and> (clickEvents \<noteq> []
          \<and> sorted_wrt (\<lambda>a b. click_time host b \<le> click_time host a) clickEvents \<longrightarrow>
          click_time host (last clickEvents) = Min (set (map (click_time host) clickEvents)))"
proof -
  from summary_average[of host now clickEvents]
  obtain s where s: "generateAnalyticsSummary host now clickEvents = Inr s"
    and t: "totalClicks_s s = length clickEvents"
    and a: "avgClicksPerDay s =
         per_unit (length clickEvents)
           (if clickEvents = [] then 1
            else max 1 \<lceil>js_div (js_sub (of_int now)
                                  (of_int (click_time host (last clickEvents))))
                           (of_int day_ms)\<rceil>)"
    by blast
  let ?span = "span_days now (click_time host (last clickEvents))"
  have e: "avgClicksPerDay s = 0" if "clickEvents = []"
    using a that by (simp add: per_unit_zero)
  have v: "avgClicksPerDay s = per_unit (length clickEvents) ?span"
    if "clickEvents \<noteq> [] \<and> \<bar>now - click_time host (last clickEvents)\<bar> < 2 ^ 53"
    using a that by (simp add: span_exact)
  have n: "\<bar>avgClicksPerDay s - of_nat (length clickEvents) / of_int ?span\<bar>
           \<le> 1 / 200 + 1 / 50000"
    if "clickEvents \<noteq> [] \<and> \<bar>now - click_time host (last clickEvents)\<bar> < 2 ^ 53
        \<and> length clickEvents < 2 ^ 32"
    using that v per_unit_near[OF _ span_days_pos, of "length clickEvents" now
        "click_time host (last clickEvents)"]
    by simp
  have o: "click_time host (last clickEvents) = Min (set (map (click_time host) clickEvents))"
    if "clickEvents \<noteq> []
        \<and> sorted_wrt (\<lambda>a b. click_time host b \<le> click_time host a) clickEvents"
    using that newest_first_last_is_oldest[of "click_time host" clickEvents] by simp
  from s t e v n o show ?thesis by blast
qed

text \<open>
  Claim C7, as stated, fails on a list that is not ordered newest first: with an event
  at day 0 followed by one at day 9.5, and now at day 10, the code divides by 1 and
  reports 2 per day, where the span from the oldest event gives 0.2.
\<close>

theorem avgClicksPerDay_oldest_first_counterexample:
  "(\<exists>s. generateAnalyticsSummary any_url_host ten_days
          [visit 0 None None None, visit (ten_days - 43200000) None None None] = Inr s
        \<and> avgClicksPerDay s = 2)
   \<and> claimed_avgClicksPerDay any_url_host ten_days
        [visit 0 None None None, visit (ten_days - 43200000) None None None] = 1 / 5"
proof -
  let ?cs = "[visit 0 None None None, visit (ten_days - 43200000) None None None]"
  have l: "click_time any_url_host (last ?cs) = ten_days - 43200000"
    by (simp add: click_time_def any_url_host_def visit_def)
  have r: "\<bar>ten_days - click_time any_url_host (last ?cs)\<bar> < 2 ^ 53"
    unfolding l by simp
  from summary_average_span[OF _ r]
  obtain s where s: "generateAnalyticsSummary any_url_host ten_days ?cs = Inr s"
    and avg: "avgClicksPerDay s
              = per_unit (length ?cs) (span_days ten_days (click_time any_url_host (last ?cs)))"
    by blast
  have sp: "span_days ten_days (ten_days - 43200000) = 1"
    by (simp add: span_days_def day_ms_def rat_rounding)
  have len: "length ?cs = 2" by simp
  from avg have "avgClicksPerDay s = 2"
    by (simp only: l sp len per_unit_examples)
  with s have a: "\<exists>s. generateAnalyticsSummary any_url_host ten_days ?cs = Inr s
                     \<and> avgClicksPerDay s = 2"
    by blast
  have b: "claimed_avgClicksPerDay any_url_host ten_days ?cs = 1 / 5"
    by (simp add: claimed_avgClicksPerDay_def span_days_def click_time_def any_url_host_def
        visit_def ten_days_def day_ms_def js_round_def rat_rounding)
  from a b show ?thesis by blast
qed

theorem avgClicksPerDay_from_last_witness:
  "[visit (ten_days - 43200000) None None None, visit 0 None None None] \<noteq> []
   \<and> \<bar>ten_days - click_time any_url_host
         (last [visit (ten_days - 43200000) None None None, visit 0 None None None])\<bar> < 2 ^ 53
   \<and> length [visit (ten_days - 43200000) None None None, visit 0 None None None] < 2 ^ 32
   \<and> sorted_wrt (\<lambda>a b. click_time any_url_host b \<le> click_time any_url_host a)
        [visit (ten_days - 43200000) None None None, visit 0 None None None]
   \<and> (\<exists>s. generateAnalyticsSummary any_url_host ten_days
          [visit (ten_days - 43200000) None None None, visit 0 None None None] = Inr s
        \<and> avgClicksPerDay s = 3602879701896397 / 18014398509481984
        \<and> \<bar>avgClicksPerDay s - 2 / 10\<bar> \<le> 1 / 200 + 1 / 50000)
   \<and> Min (set (map (click_time any_url_host)
        [visit (ten_days - 43200000) None None None, visit 0 None None None])) = 0
   \<and> (\<exists>s. generateAnalyticsSummary any_url_host ten_days [] = Inr s \<and> avgClicksPerDay s = 0)"
proof -
  let ?cs = "[visit (ten_days - 43200000) None None None, visit 0 None None None]"
  have l: "click_time any_url_host (last ?cs) = 0"
    by (simp add: click_time_def any_url_host_def visit_def)
  have ne: "?cs \<noteq> []" by simp
  have r: "\<bar>ten_days - click_time any_url_host (last ?cs)\<bar> < 2 ^ 53"
    unfolding l by (simp add: ten_days_def day_ms_def)
  have len: "length ?cs < 2 ^ 32" by simp
  have len2: "length ?cs = 2" by simp
  have srt: "sorted_wrt (\<lambda>a b. click_time any_url_host b \<le> click_time any_url_host a) ?cs"
    by (simp add: click_time_def any_url_host_def visit_def ten_days_def day_ms_def)
  have sp: "span_days ten_days 0 = 10"
    by (simp add: span_days_def ten_days_def day_ms_def)
  from avgClicksPerDay_from_last[of any_url_host ten_days ?cs]
  obtain s where s: "generateAnalyticsSummary any_url_host ten_days ?cs = Inr s"
    and v: "?cs \<noteq> [] \<and> \<bar>ten_days - click_time any_url_host (last ?cs)\<bar> < 2 ^ 53 \<longrightarrow>
          avgClicksPerDay s
          = per_unit (length ?cs) (span_days ten_days (click_time any_url_host (last ?cs)))"
    and n: "?cs \<noteq> [] \<and> \<bar>ten_days - click_time any_url_host (last ?cs)\<bar> < 2 ^ 53
          \<and> length ?cs < 2 ^ 32 \<longrightarrow>
          \<bar>avgClicksPerDay s - of_nat (length ?cs)
              / of_int (span_days ten_days (click_time any_url_host (last ?cs)))\<bar>
          \<le> 1 / 200 + 1 / 50000"
    and o: "?cs \<noteq> []
          \<and> sorted_wrt (\<lambda>a b. click_time any_url_host b \<le> click_time any_url_host a) ?cs \<longrightarrow>
          click_time any_url_host (last ?cs) = Min (set (map (click_time any_url_host) ?cs))"
    by blast
  from v ne r have "avgClicksPerDay s
          = per_unit (length ?cs) (span_days ten_days (click_time any_url_host (last ?cs)))"
    by blast
  then have v': "avgClicksPerDay s = 3602879701896397 / 18014398509481984"
    by (simp only: l sp len2 per_unit_examples)
  from n ne r len have "\<bar>avgClicksPerDay s - of_nat (length ?cs)
              / of_int (span_days ten_days (click_time any_url_host (last ?cs)))\<bar>
          \<le> 1 / 200 + 1 / 50000"
    by blast
  then have n': "\<bar>avgClicksPerDay s - 2 / 10\<bar> \<le> 1 / 200 + 1 / 50000"
    unfolding l sp by simp
  from o ne srt have "click_time any_url_host (last ?cs)
                      = Min (set (map (click_time any_url_host) ?cs))"
    by blast
  then have o': "Min (set (map (click_time any_url_host) ?cs)) = 0"
    unfolding l by simp
  have "\<exists>s. generateAnalyticsSummary any_url_host ten_days ?cs = Inr s
        \<and> avgClicksPerDay s = 3602879701896397 / 18014398509481984
        \<and> \<bar>avgClicksPerDay s - 2 / 10\<bar> \<le> 1 / 200 + 1 / 50000"
    using s v' n' by blast
  moreover from avgClicksPerDay_from_last[of any_url_host ten_days "[]"]
  have "\<exists>s. generateAnalyticsSummary any_url_host ten_days [] = Inr s \<and> avgClicksPerDay s = 0"
    by blast
  ultimately show ?thesis using ne r len srt o' by blast
qed

subsection \<open>Groups and their ranking\<close>

lemma set_first_seen: "set (first_seen xs) = set xs"
  by (induction xs) auto

lemma distinct_first_seen: "distinct (first_seen xs)"
  by (induction xs) (auto simp: distinct_removeAll)

lemma first_seen_snoc:
  "first_seen (xs @ [x]) = (if x \<in> set xs then first_seen xs else first_seen xs @ [x])"
  by (induction xs) (auto simp: set_first_seen)

lemma map_of_keyed: "map_of (map (\<lambda>k. (k, g k)) ks) k = (if k \<in> set ks then Some (g k) else None)"
  by (induction ks) auto

lemma map_set_keyed:
  "distinct ks \<Longrightarrow>
   map_set (map (\<lambda>k. (k, g k)) ks) x v
   = (if x \<in> set ks then map (\<lambda>k. (k, if k = x then v else g k)) ks
      else map (\<lambda>k. (k, g k)) ks @ [(x, v)])"
  by (induction ks) auto

lemma count_up_keyed:
  assumes "distinct ks"
  shows "count_up (map (\<lambda>k. (k, g k)) ks) x
   = (if x \<in> set ks then map (\<lambda>k. (k, if k = x then g k + 1 else g k)) ks
      else map (\<lambda>k. (k, g k)) ks @ [(x, 1)])"
  by (auto simp: count_up_def map_of_keyed map_set_keyed[OF assms])

lemma fold_count_up_groups:
  "fold (\<lambda>x m. count_up m x) xs [] = map (\<lambda>k. (k, count_list xs k)) (first_seen xs)"
proof (induction xs rule: rev_induct)
  case Nil
  then show ?case by simp
next
  case (snoc x xs)
  have "fold (\<lambda>x m. count_up m x) (xs @ [x]) []
        = count_up (map (\<lambda>k. (k, count_list xs k)) (first_seen xs)) x"
    by (simp add: snoc.IH)
  also have "\<dots> = map (\<lambda>k. (k, count_list (xs @ [x]) k)) (first_seen (xs @ [x]))"
  proof (cases "x \<in> set xs")
    case True
    then show ?thesis
      by (simp add: count_up_keyed[OF distinct_first_seen] set_first_seen first_seen_snoc)
  next
    case False
    then have "count_list xs x = 0" by simp
    moreover have "k \<noteq> x" if "k \<in> set (first_seen xs)" for k
      using that False by (auto simp: set_first_seen)
    ultimately show ?thesis using False
      by (auto simp: count_up_keyed[OF distinct_first_seen] set_first_seen first_seen_snoc)
  qed
  finally show ?case .
qed

lemma fold_count_up_map:
  "fold (\<lambda>x m. count_up m (f x)) xs [] = map (\<lambda>k. (k, count_list (map f xs) k)) (first_seen (map f xs))"
proof -
  have "fold (\<lambda>x m. count_up m (f x)) xs [] = fold (\<lambda>x m. count_up m x) (map f xs) []"
    by (simp add: fold_map comp_def)
  then show ?thesis by (simp add: fold_count_up_groups)
qed

lemma sum_count_first_seen: "sum_list (map (count_list xs) (first_seen xs)) = length xs"
proof -
  have "sum_list (map (count_list xs) (first_seen xs)) = sum (count_list xs) (set (first_seen xs))"
    by (rule sum_list_distinct_conv_sum_set[OF distinct_first_seen])
  also have "\<dots> = length xs"
    by (simp add: set_first_seen sum_count_set)
  finally show ?thesis .
qed

lemma sum_list_insort_key: "sum_list (map g (insort_key f x xs)) = g x + sum_list (map g xs)"
  for g :: "'a \<Rightarrow> nat"
  by (induction xs) auto

lemma sum_list_sort_key: "sum_list (map g (sort_key f xs)) = sum_list (map g xs)"
  for g :: "'a \<Rightarrow> nat"
  by (induction xs) (auto simp: sum_list_insort_key)

lemma sum_list_take_le: "sum_list (take n xs) \<le> sum_list xs" for xs :: "nat list"
proof -
  have "sum_list xs = sum_list (take n xs) + sum_list (drop n xs)"
    by (metis append_take_drop_id sum_list_append)
  then show ?thesis by simp
qed

lemma filter_take_prefix:
  "filter P (take n xs) = take (length (filter P (take n xs))) (filter P xs)"
proof -
  have "filter P xs = filter P (take n xs) @ filter P (drop n xs)"
    by (metis append_take_drop_id filter_append)
  then show ?thesis by simp
qed

lemma slice0_is_take: "\<exists>n. slice0 limit xs = take n xs"
  by (auto simp: slice0_def)


subsection \<open>Top referrers\<close>

lemma referrer_groups:
  "fold (\<lambda>click m. count_up m
           (extractDomain host (case or_null (referer click) of None \<Rightarrow> ''Direct'' | Some r \<Rightarrow> r)))
     cs []
   = map (\<lambda>k. (k, count_list (map (domain_of host) cs) k)) (first_seen (map (domain_of host) cs))"
  using fold_count_up_map[of "domain_of host" cs] by (simp add: domain_of_def)

lemma calculateTopReferrers_eq:
  "calculateTopReferrers host cs limit =
   map (\<lambda>(r, n). \<lparr> referrer = r, clicks_r = n, percentage_r = percentage_of n (length cs) \<rparr>)
     (slice0 limit (sort_desc (map (\<lambda>k. (k, count_list (map (domain_of host) cs) k))
                                 (first_seen (map (domain_of host) cs)))))"
  by (simp add: calculateTopReferrers_def Let_def referrer_groups)

lemma percentage_of_le:
  assumes "n \<le> t"
  shows "percentage_of n t \<le> 100 * of_nat n / of_nat t + (1 / 200 + 1 / 100000000000)"
  using percentage_of_near[OF assms] by linarith

lemma sum_percentages_le:
  assumes "\<forall>n\<in>set ns. n \<le> t"
  shows "sum_list (map (\<lambda>n. percentage_of n t) ns)
         \<le> 100 * of_nat (sum_list ns) / of_nat t
             + of_nat (length ns) * (1 / 200 + 1 / 100000000000)"
  using assms
proof (induction ns)
  case Nil
  then show ?case by simp
next
  case (Cons n ns)
  have "sum_list (map (\<lambda>n. percentage_of n t) (n # ns))
        = percentage_of n t + sum_list (map (\<lambda>n. percentage_of n t) ns)" by simp
  also have "\<dots> \<le> (100 * of_nat n / of_nat t + (1 / 200 + 1 / 100000000000))
                 + (100 * of_nat (sum_list ns) / of_nat t
                    + of_nat (length ns) * (1 / 200 + 1 / 100000000000))"
    using Cons.prems by (intro add_mono percentage_of_le Cons.IH) simp_all
  also have "\<dots> = 100 * of_nat (sum_list (n # ns)) / of_nat t
                   + of_nat (length (n # ns)) * (1 / 200 + 1 / 100000000000)"
    by (simp add: add_divide_distrib algebra_simps)
  finally show ?case .
qed


lemma length_first_seen: "length (first_seen xs) \<le> length xs"
  by (metis distinct_card distinct_first_seen set_first_seen card_length)

lemma sorted_sort_desc: "sorted_wrt (\<lambda>a b. snd b \<le> snd a) (sort_desc m)"
proof -
  have "sorted (map (\<lambda>e. - int (snd e)) (sort_desc m))"
    unfolding sort_desc_def by (rule sorted_sort_key)
  then show ?thesis by (simp add: sorted_map)
qed

lemma sort_desc_stable: "filter (\<lambda>e. snd e = n) (sort_desc m) = filter (\<lambda>e. snd e = n) m"
  using sort_key_stable[of "\<lambda>e. - int (snd e)" "- int n" m] by (simp add: sort_desc_def)

lemma set_sort_desc: "set (sort_desc m) = set m"
  by (simp add: sort_desc_def)

lemma length_sort_desc: "length (sort_desc m) = length m"
  by (simp add: sort_desc_def)

lemma distinct_keys_sort_desc: "distinct (map fst m) \<Longrightarrow> distinct (map fst (sort_desc m))"
  by (simp add: distinct_map sort_desc_def)

lemma sum_sort_desc: "sum_list (map snd (sort_desc m)) = sum_list (map snd m)"
  unfolding sort_desc_def by (rule sum_list_sort_key)

lemma groups_counts: "e \<in> set (groups_of ks) \<Longrightarrow> snd e = count_list ks (fst e)"
  by (auto simp: groups_of_def)

lemma ranked_counts:
  assumes "e \<in> set (slice0 limit (sort_desc (groups_of ks)))"
  shows "snd e = count_list ks (fst e)"
proof -
  obtain n where "slice0 limit (sort_desc (groups_of ks)) = take n (sort_desc (groups_of ks))"
    using slice0_is_take by blast
  with assms have "e \<in> set (sort_desc (groups_of ks))" by (auto dest: in_set_takeD)
  then show ?thesis by (simp add: set_sort_desc groups_counts)
qed

lemma ranked_sorted: "sorted_wrt (\<lambda>a b. snd b \<le> snd a) (slice0 limit (sort_desc m))"
proof -
  obtain n where "slice0 limit (sort_desc m) = take n (sort_desc m)"
    using slice0_is_take by blast
  then show ?thesis using sorted_sort_desc[of m] by (simp add: sorted_wrt_take)
qed

lemma ranked_distinct: "distinct (map fst (slice0 limit (sort_desc (groups_of ks))))"
proof -
  obtain n where n: "slice0 limit (sort_desc (groups_of ks)) = take n (sort_desc (groups_of ks))"
    using slice0_is_take by blast
  have "distinct (map fst (groups_of ks))"
    by (simp add: groups_of_def comp_def distinct_first_seen)
  then have "distinct (map fst (sort_desc (groups_of ks)))"
    by (rule distinct_keys_sort_desc)
  then show ?thesis by (simp add: n take_map[symmetric] distinct_take)
qed

lemma ranked_ties:
  "map fst (filter (\<lambda>e. snd e = n) (slice0 limit (sort_desc (groups_of ks))))
   = take (length (filter (\<lambda>e. snd e = n) (slice0 limit (sort_desc (groups_of ks)))))
       (filter (\<lambda>k. count_list ks k = n) (first_seen ks))"
proof -
  obtain m where m: "slice0 limit (sort_desc (groups_of ks)) = take m (sort_desc (groups_of ks))"
    using slice0_is_take by blast
  let ?P = "\<lambda>e :: 'a \<times> nat. snd e = n"
  define l where "l = length (filter ?P (take m (sort_desc (groups_of ks))))"
  have "filter ?P (take m (sort_desc (groups_of ks)))
        = take l (filter ?P (sort_desc (groups_of ks)))"
    unfolding l_def by (rule filter_take_prefix)
  also have "filter ?P (sort_desc (groups_of ks)) = filter ?P (groups_of ks)"
    by (rule sort_desc_stable)
  also have "\<dots> = map (\<lambda>k. (k, count_list ks k)) (filter (\<lambda>k. count_list ks k = n) (first_seen ks))"
    by (simp add: groups_of_def filter_map comp_def)
  finally have "map fst (filter ?P (take m (sort_desc (groups_of ks))))
        = map fst (take l (map (\<lambda>k. (k, count_list ks k))
                     (filter (\<lambda>k. count_list ks k = n) (first_seen ks))))"
    by (rule arg_cong)
  also have "\<dots> = take l (filter (\<lambda>k. count_list ks k = n) (first_seen ks))"
    by (simp add: take_map comp_def)
  finally show ?thesis
    unfolding m l_def .
qed

lemma ranked_sum: "sum_list (map snd (slice0 limit (sort_desc (groups_of ks)))) \<le> length ks"
proof -
  obtain m where m: "slice0 limit (sort_desc (groups_of ks)) = take m (sort_desc (groups_of ks))"
    using slice0_is_take by blast
  have "sum_list (map snd (take m (sort_desc (groups_of ks))))
        \<le> sum_list (map snd (sort_desc (groups_of ks)))"
    using sum_list_take_le[of m "map snd (sort_desc (groups_of ks))"] by (simp add: take_map)
  also have "\<dots> = sum_list (map (count_list ks) (first_seen ks))"
    by (simp add: sum_sort_desc groups_of_def comp_def)
  also have "\<dots> = length ks" by (rule sum_count_first_seen)
  finally show ?thesis by (simp add: m)
qed

lemma slice0_all: "length xs \<le> n \<Longrightarrow> slice0 (int n) xs = xs"
  by (simp add: slice0_def)

lemma slice0_map: "slice0 limit (map f xs) = map f (slice0 limit xs)"
  by (simp add: slice0_def take_map)


lemma calculateTopReferrers_ranked:
  "calculateTopReferrers host cs limit
   = map (referrer_entry (length cs))
       (slice0 limit (sort_desc (groups_of (map (domain_of host) cs))))"
  by (simp add: calculateTopReferrers_eq groups_of_def referrer_entry_def case_prod_unfold)

text \<open>
  Claim C5, amended. For every list of events and every limit, the rows of
  \<open>calculateTopReferrers\<close> are sorted by descending count; there is one row per referrer
  group, and its count is the number of events of the group; its percentage is
  \<open>Math.round((count / total) * 100 * 100) / 100\<close> in double arithmetic, \<open>total\<close> being the
  number of all events, and lies within 0.005 + 0.00000000001 of the count's share in
  percent (it is not always the share rounded to two decimals, see
  \<open>percentage_of_examples\<close>); rows of equal count stand in the order in which their
  groups first occur in the list (those present are the first of their count); the
  result is the full ranking cut to the limit, so for a limit of at least 0 it has the
  smaller of the limit and the number of groups as its length. The percentages are
  rounded one by one, so their sum is bounded by 100 plus that distance for each row
  returned, not by 100.
\<close>

theorem calculateTopReferrers_ranking:
  "let D = map (domain_of host) clickEvents;
       R = calculateTopReferrers host clickEvents limit
   in sorted_wrt (\<lambda>a b. clicks_r b \<le> clicks_r a) R
    \<and> distinct (map referrer R)
    \<and> map clicks_r R = map (\<lambda>e. count_list D (referrer e)) R
    \<and> map percentage_r R = map (\<lambda>e. percentage_of (clicks_r e) (length clickEvents)) R
    \<and> (\<forall>e\<in>set R. \<bar>percentage_r e - 100 * of_nat (clicks_r e) / of_nat (length clickEvents)\<bar>
                    \<le> 1 / 200 + 1 / 100000000000)
    \<and> (\<forall>n. map referrer (filter (\<lambda>e. clicks_r e = n) R)
           = take (length (filter (\<lambda>e. clicks_r e = n) R))
               (filter (\<lambda>d. count_list D d = n) (first_seen D)))
    \<and> R = slice0 limit (calculateTopReferrers host clickEvents (int (length clickEvents)))
    \<and> (0 \<le> limit \<longrightarrow> length R = min (nat limit) (length (first_seen D)))
    \<and> sum_list (map percentage_r R) \<le> 100 + of_nat (length R) * (1 / 200 + 1 / 100000000000)"
proof -
  define D where "D = map (domain_of host) clickEvents"
  define T where "T = slice0 limit (sort_desc (groups_of D))"
  define R where "R = calculateTopReferrers host clickEvents limit"
  let ?mk = "referrer_entry (length clickEvents)"
  have R: "R = map ?mk T"
    by (simp add: R_def T_def D_def calculateTopReferrers_ranked)
  have proj: "clicks_r (?mk e) = snd e" "referrer (?mk e) = fst e"
    "percentage_r (?mk e) = percentage_of (snd e) (length clickEvents)" for e
    by (simp_all add: referrer_entry_def)
  have srt: "sorted_wrt (\<lambda>a b. clicks_r b \<le> clicks_r a) R"
    using ranked_sorted[of limit "groups_of D"] by (simp add: R T_def sorted_wrt_map proj)
  have dst: "distinct (map referrer R)"
    using ranked_distinct[of limit D] by (simp add: R T_def comp_def proj)
  have cnt: "map clicks_r R = map (\<lambda>e. count_list D (referrer e)) R"
    using ranked_counts[of _ limit D] by (simp add: R T_def proj)
  have pct: "map percentage_r R = map (\<lambda>e. percentage_of (clicks_r e) (length clickEvents)) R"
    by (simp add: R proj)
  have ties: "map referrer (filter (\<lambda>e. clicks_r e = n) R)
           = take (length (filter (\<lambda>e. clicks_r e = n) R))
               (filter (\<lambda>d. count_list D d = n) (first_seen D))" for n
    using ranked_ties[of n limit D] by (simp add: R T_def filter_map comp_def proj)
  have full: "calculateTopReferrers host clickEvents (int (length clickEvents))
              = map ?mk (sort_desc (groups_of D))"
  proof -
    have "length (sort_desc (groups_of D)) \<le> length clickEvents"
      using length_first_seen[of D] by (simp add: length_sort_desc groups_of_def D_def)
    then show ?thesis
      by (simp add: calculateTopReferrers_ranked D_def[symmetric] slice0_all)
  qed
  have cut: "R = slice0 limit (calculateTopReferrers host clickEvents (int (length clickEvents)))"
    by (simp add: full slice0_map R T_def)
  have len: "length R = min (nat limit) (length (first_seen D))" if "0 \<le> limit"
    using that by (simp add: R T_def slice0_def length_sort_desc groups_of_def min.commute)
  have small: "snd e \<le> length clickEvents" if "e \<in> set T" for e
  proof -
    have "snd e = count_list D (fst e)" using that unfolding T_def by (rule ranked_counts)
    also have "\<dots> \<le> length D" by (rule count_le_length)
    finally show ?thesis by (simp add: D_def)
  qed
  have near: "\<forall>e\<in>set R. \<bar>percentage_r e - 100 * of_nat (clicks_r e) / of_nat (length clickEvents)\<bar>
                    \<le> 1 / 200 + 1 / 100000000000"
  proof
    fix e assume "e \<in> set R"
    then obtain g where g: "g \<in> set T" "e = ?mk g" by (auto simp: R)
    from percentage_of_near[OF small[OF g(1)]] show
      "\<bar>percentage_r e - 100 * of_nat (clicks_r e) / of_nat (length clickEvents)\<bar>
       \<le> 1 / 200 + 1 / 100000000000"
      by (simp only: g(2) proj)
  qed
  have "sum_list (map percentage_r R)
        = sum_list (map (\<lambda>n. percentage_of n (length clickEvents)) (map snd T))"
    by (simp add: R comp_def proj)
  also have "\<dots> \<le> 100 * of_nat (sum_list (map snd T)) / of_nat (length clickEvents)
                   + of_nat (length (map snd T)) * (1 / 200 + 1 / 100000000000)"
    using small by (intro sum_percentages_le) auto
  also have "\<dots> \<le> 100 + of_nat (length R) * (1 / 200 + 1 / 100000000000)"
  proof -
    have "sum_list (map snd T) \<le> length clickEvents"
      using ranked_sum[of limit D] by (simp add: T_def D_def)
    then have "(of_nat (sum_list (map snd T)) :: rat) / of_nat (length clickEvents) \<le> 1"
      by (simp add: divide_le_eq_1)
    then have "100 * ((of_nat (sum_list (map snd T)) :: rat) / of_nat (length clickEvents))
               \<le> 100 * 1"
      by (rule mult_left_mono) simp
    then show ?thesis by (simp add: R)
  qed
  finally have bound: "sum_list (map percentage_r R)
                       \<le> 100 + of_nat (length R) * (1 / 200 + 1 / 100000000000)" .
  from srt dst cnt pct near ties cut len bound show ?thesis
    unfolding Let_def D_def[symmetric] R_def[symmetric] by blast
qed


lemmas evaluate_referrers =
  calculateTopReferrers_def visit_def count_up_def sort_desc_def slice0_def extractDomain_def
  any_url_host_def or_null_def Let_def

text \<open>
  One of six is 16.67 percent, a double just above 16.67. 23 of 160 are 14.375 percent,
  which rounds to 14.38; the code yields 14.37, the product \<open>(23 / 160) * 100 * 100\<close> being
  1437.4999999999998 in doubles.
\<close>

lemma percentage_of_examples:
  "percentage_of 1 6 = 1173046965441659 / 70368744177664"
  "percentage_of 23 160 = 8089590830664253 / 562949953421312"
  "exact_percentage 23 160 = 1438 / 100"
  "percentage_of 1 4 = 25" "percentage_of 2 4 = 50"
  "percentage_of 1 2 = 50" "percentage_of 1 1 = 100" "percentage_of 2 2 = 100"
  "percentage_of 137 160 = 753209445491671 / 8796093022208"
  by (simp_all add: percentage_of_def exact_percentage_def evaluate_double)

lemma count_list_replicate: "count_list (replicate n x) y = (if x = y then n else 0)"
  by (induction n) auto

lemma first_seen_replicate: "first_seen (replicate (Suc n) x) = [x]"
  by (induction n) auto

lemma first_seen_two:
  assumes "x \<noteq> y" and "0 < n" and "0 < m"
  shows "first_seen (replicate n x @ replicate m y) = [x, y]"
proof -
  obtain n' m' where n: "n = Suc n'" and m: "m = Suc m'"
    using assms(2,3) by (metis Suc_pred)
  have "first_seen (replicate (Suc k) x @ replicate (Suc m') y) = [x, y]" for k
  proof (induction k)
    case 0
    then show ?case using first_seen_replicate[of m' y] assms(1) by simp
  next
    case (Suc k)
    then show ?case using assms(1) by simp
  qed
  then show ?thesis unfolding n m .
qed

lemma uneven_referrers_rows:
  "calculateTopReferrers any_url_host uneven_referrers 10
   = [\<lparr> referrer = ''b'', clicks_r = 137, percentage_r = percentage_of 137 160 \<rparr>,
      \<lparr> referrer = ''a'', clicks_r = 23, percentage_r = percentage_of 23 160 \<rparr>]"
proof -
  have d: "map (domain_of any_url_host) uneven_referrers = replicate 137 ''b'' @ replicate 23 ''a''"
    by (simp add: uneven_referrers_def domain_of_def visit_def or_null_def extractDomain_def
        any_url_host_def)
  have g: "groups_of (map (domain_of any_url_host) uneven_referrers) = [(''b'', 137), (''a'', 23)]"
    unfolding d groups_of_def by (simp add: first_seen_two count_list_replicate)
  have l: "length uneven_referrers = 160" by (simp add: uneven_referrers_def)
  show ?thesis
    unfolding calculateTopReferrers_ranked g l
    by (simp add: sort_desc_def slice0_def referrer_entry_def)
qed

text \<open>
  Claim C5, as stated, fails on six events with six different referrers: each row has
  16.67 percent, and the sum is above 100. And of 160 events the 23 with one referrer
  get 14.37 percent, where their share rounded to two decimals is 14.38.
\<close>

theorem calculateTopReferrers_sum_counterexample:
  "map percentage_r (calculateTopReferrers any_url_host six_referrers 10)
     = replicate 6 (1173046965441659 / 70368744177664)
   \<and> sum_list (map percentage_r (calculateTopReferrers any_url_host six_referrers 10))
     = 3519140896324977 / 35184372088832
   \<and> (100 :: rat) < 3519140896324977 / 35184372088832
   \<and> map clicks_r (calculateTopReferrers any_url_host uneven_referrers 10) = [137, 23]
   \<and> map percentage_r (calculateTopReferrers any_url_host uneven_referrers 10)
     = [753209445491671 / 8796093022208, 8089590830664253 / 562949953421312]
   \<and> exact_percentage 23 160 = 1438 / 100
   \<and> (8089590830664253 / 562949953421312 :: rat) < 1438 / 100"
proof -
  have p: "percentage_of (Suc 0) (Suc (Suc (Suc (Suc (Suc (Suc 0))))))
           = 1173046965441659 / 70368744177664"
    using percentage_of_examples(1) by (simp add: eval_nat_numeral)
  have "calculateTopReferrers any_url_host six_referrers 10
        = map (\<lambda>r. \<lparr> referrer = r, clicks_r = 1,
                      percentage_r = 1173046965441659 / 70368744177664 \<rparr>)
            [''a'', ''b'', ''c'', ''d'', ''e'', ''f'']"
    by (simp add: six_referrers_def evaluate_referrers p)
  then have six: "map percentage_r (calculateTopReferrers any_url_host six_referrers 10)
     = replicate 6 (1173046965441659 / 70368744177664)"
    "sum_list (map percentage_r (calculateTopReferrers any_url_host six_referrers 10))
     = 3519140896324977 / 35184372088832"
    by (simp_all add: eval_nat_numeral)
  have uneven: "map clicks_r (calculateTopReferrers any_url_host uneven_referrers 10) = [137, 23]"
    "map percentage_r (calculateTopReferrers any_url_host uneven_referrers 10)
     = [753209445491671 / 8796093022208, 8089590830664253 / 562949953421312]"
    by (simp_all add: uneven_referrers_rows percentage_of_examples)
  have less: "(100 :: rat) < 3519140896324977 / 35184372088832"
    "(8089590830664253 / 562949953421312 :: rat) < 1438 / 100"
    by simp_all
  from six uneven less percentage_of_examples(3) show ?thesis by simp
qed

theorem calculateTopReferrers_ranking_witness:
  "(0::int) \<le> 2
   \<and> calculateTopReferrers any_url_host four_referrers 2
       = [\<lparr> referrer = ''b'', clicks_r = 2, percentage_r = 50 \<rparr>,
          \<lparr> referrer = ''a'', clicks_r = 1, percentage_r = 25 \<rparr>]
   \<and> length (calculateTopReferrers any_url_host four_referrers 2)
       = min (nat 2) (length (first_seen (map (domain_of any_url_host) four_referrers)))
   \<and> sorted_wrt (\<lambda>a b. clicks_r b \<le> clicks_r a) (calculateTopReferrers any_url_host four_referrers 2)
   \<and> list_all (\<lambda>e. \<bar>percentage_r e - 100 * of_nat (clicks_r e) / of_nat (length four_referrers)\<bar>
                     \<le> 1 / 200 + 1 / 100000000000)
        (calculateTopReferrers any_url_host four_referrers 2)"
proof -
  have p: "percentage_of (Suc (Suc 0)) (Suc (Suc (Suc (Suc 0)))) = 50"
    "percentage_of (Suc 0) (Suc (Suc (Suc (Suc 0)))) = 25"
    using percentage_of_examples(4,5) by (simp_all add: eval_nat_numeral)
  have v: "calculateTopReferrers any_url_host four_referrers 2
       = [\<lparr> referrer = ''b'', clicks_r = 2, percentage_r = 50 \<rparr>,
          \<lparr> referrer = ''a'', clicks_r = 1, percentage_r = 25 \<rparr>]"
    by (simp add: four_referrers_def evaluate_referrers p)
  have l: "(0::int) \<le> 2" by simp
  from calculateTopReferrers_ranking[of any_url_host four_referrers 2]
  have "(0::int) \<le> 2 \<longrightarrow> length (calculateTopReferrers any_url_host four_referrers 2)
       = min (nat 2) (length (first_seen (map (domain_of any_url_host) four_referrers)))"
    and s: "sorted_wrt (\<lambda>a b. clicks_r b \<le> clicks_r a)
              (calculateTopReferrers any_url_host four_referrers 2)"
    and n: "\<forall>e\<in>set (calculateTopReferrers any_url_host four_referrers 2).
         \<bar>percentage_r e - 100 * of_nat (clicks_r e) / of_nat (length four_referrers)\<bar>
         \<le> 1 / 200 + 1 / 100000000000"
    unfolding Let_def by blast+
  with l have "length (calculateTopReferrers any_url_host four_referrers 2)
       = min (nat 2) (length (first_seen (map (domain_of any_url_host) four_referrers)))"
    by blast
  moreover from n have "list_all (\<lambda>e. \<bar>percentage_r e - 100 * of_nat (clicks_r e)
                                           / of_nat (length four_referrers)\<bar>
                     \<le> 1 / 200 + 1 / 100000000000)
        (calculateTopReferrers any_url_host four_referrers 2)"
    by (simp only: list_all_iff)
  ultimately show ?thesis using l v s by blast
qed

subsection \<open>Geographic distribution\<close>

lemma map_set_project: "map (\<lambda>(k, l). (k, p l)) (map_set m k v) = map_set (map (\<lambda>(k, l). (k, p l)) m) k (p v)"
  by (induction m) auto

lemma map_of_project: "map_of (map (\<lambda>(k, l). (k, p l)) m) k = map_option p (map_of m k)"
  by (induction m) auto

lemma group_location_clicks:
  "map (\<lambda>(k, l). (k, clicks_loc l)) (group_location c m)
   = (case coords_of c of
        None \<Rightarrow> map (\<lambda>(k, l). (k, clicks_loc l)) m
      | Some k \<Rightarrow> count_up (map (\<lambda>(k, l). (k, clicks_loc l)) m) k)"
  by (auto simp: group_location_def coords_of_def or_null_num_def count_up_def map_set_project
      map_of_project Let_def split: option.splits)

lemma fold_group_location_clicks:
  "map (\<lambda>(k, l). (k, clicks_loc l)) (fold group_location cs m)
   = fold (\<lambda>k m. count_up m k) (located_keys cs) (map (\<lambda>(k, l). (k, clicks_loc l)) m)"
proof (induction cs arbitrary: m)
  case Nil
  then show ?case by (simp add: located_keys_def)
next
  case (Cons c cs)
  show ?case
  proof (cases "coords_of c")
    case None
    then show ?thesis
      using Cons.IH[of "group_location c m"] by (simp add: group_location_clicks located_keys_def)
  next
    case (Some k)
    then show ?thesis
      using Cons.IH[of "group_location c m"] by (simp add: group_location_clicks located_keys_def)
  qed
qed

lemma map_set_keeps:
  "list_all P m \<Longrightarrow> P (k, v) \<Longrightarrow> list_all P (map_set m k v)"
  by (induction m) auto

lemma group_location_coordinates:
  assumes "list_all (\<lambda>(k, l). coordinates l = (snd k, fst k)) m"
  shows "list_all (\<lambda>(k, l). coordinates l = (snd k, fst k)) (group_location c m)"
proof -
  have "coordinates l = (snd k, fst k)" if "map_of m k = Some l" for k l
    using assms map_of_SomeD[OF that] by (auto simp: list_all_iff)
  then show ?thesis
    using assms by (auto simp: group_location_def Let_def intro!: map_set_keeps split: option.splits)
qed

lemma fold_group_location_coordinates:
  "list_all (\<lambda>(k, l). coordinates l = (snd k, fst k)) m \<Longrightarrow>
   list_all (\<lambda>(k, l). coordinates l = (snd k, fst k)) (fold group_location cs m)"
  by (induction cs arbitrary: m) (auto intro: group_location_coordinates)

lemma located_groups:
  "map (\<lambda>(k, l). (k, clicks_loc l)) (fold group_location cs []) = groups_of (located_keys cs)"
  by (simp add: fold_group_location_clicks fold_count_up_groups groups_of_def)

lemma geographic_points:
  "map coordinates (calculateGeographicDistribution clickEvents)
     = map (\<lambda>(la, lo). (lo, la)) (first_seen (located_keys clickEvents))
   \<and> map clicks_loc (calculateGeographicDistribution clickEvents)
     = map (count_list (located_keys clickEvents)) (first_seen (located_keys clickEvents))
   \<and> map percentage (calculateGeographicDistribution clickEvents)
     = map (\<lambda>k. percentage_of (count_list (located_keys clickEvents) k) (length clickEvents))
         (first_seen (located_keys clickEvents))"
proof -
  define M where "M = fold group_location clickEvents []"
  define ks where "ks = located_keys clickEvents"
  have g: "map (\<lambda>(k, l). (k, clicks_loc l)) M = groups_of ks"
    by (simp add: M_def ks_def located_groups)
  have keys: "map fst M = first_seen ks"
  proof -
    have "map fst M = map fst (map (\<lambda>(k, l). (k, clicks_loc l)) M)"
      by (simp add: comp_def case_prod_unfold)
    also have "\<dots> = first_seen ks"
      by (simp add: g groups_of_def comp_def)
    finally show ?thesis .
  qed
  have cl: "map (\<lambda>e. clicks_loc (snd e)) M = map (count_list ks) (first_seen ks)"
  proof -
    have "map (\<lambda>e. clicks_loc (snd e)) M = map snd (map (\<lambda>(k, l). (k, clicks_loc l)) M)"
      by (simp add: comp_def case_prod_unfold)
    also have "\<dots> = map (count_list ks) (first_seen ks)"
      by (simp add: g groups_of_def comp_def)
    finally show ?thesis .
  qed
  have "list_all (\<lambda>(k, l). coordinates l = (snd k, fst k)) M"
    unfolding M_def by (rule fold_group_location_coordinates) simp
  then have co: "map (\<lambda>e. coordinates (snd e)) M = map (\<lambda>(la, lo). (lo, la)) (map fst M)"
    by (auto simp: list_all_iff)
  have r: "calculateGeographicDistribution clickEvents
        = map (\<lambda>location. MapLocation.extend location
                 \<lparr> percentage = percentage_of (clicks_loc location) (length clickEvents) \<rparr>)
           (map snd M)"
    by (simp add: calculateGeographicDistribution_def Let_def M_def)
  have a: "map coordinates (calculateGeographicDistribution clickEvents)
           = map (\<lambda>(la, lo). (lo, la)) (first_seen ks)"
    using co by (simp add: r comp_def MapLocation.defs keys)
  have b: "map clicks_loc (calculateGeographicDistribution clickEvents)
           = map (count_list ks) (first_seen ks)"
    using cl by (simp add: r comp_def MapLocation.defs)
  have "map percentage (calculateGeographicDistribution clickEvents)
        = map (\<lambda>n. percentage_of n (length clickEvents)) (map (\<lambda>e. clicks_loc (snd e)) M)"
    by (simp add: r comp_def MapLocation.defs)
  then have c: "map percentage (calculateGeographicDistribution clickEvents)
        = map (\<lambda>k. percentage_of (count_list ks k) (length clickEvents)) (first_seen ks)"
    by (simp add: cl comp_def)
  from a b c show ?thesis unfolding ks_def by blast
qed


lemma point_of_group:
  assumes "p \<in> set (calculateGeographicDistribution clickEvents)"
  shows "\<exists>k. clicks_loc p = count_list (located_keys clickEvents) k
           \<and> percentage p = percentage_of (count_list (located_keys clickEvents) k)
                              (length clickEvents)"
proof -
  let ?P = "calculateGeographicDistribution clickEvents"
  let ?ks = "first_seen (located_keys clickEvents)"
  from assms obtain i where i: "i < length ?P" "p = ?P ! i" by (auto simp: in_set_conv_nth)
  note g = geographic_points[of clickEvents]
  have l: "length ?P = length ?ks"
    using g by (metis length_map)
  have "clicks_loc p = map clicks_loc ?P ! i" using i by simp
  also have "\<dots> = count_list (located_keys clickEvents) (?ks ! i)"
    using g i l by simp
  finally have c: "clicks_loc p = count_list (located_keys clickEvents) (?ks ! i)" .
  have "percentage p = map percentage ?P ! i" using i by simp
  also have "\<dots> = percentage_of (count_list (located_keys clickEvents) (?ks ! i))
                      (length clickEvents)"
    using g i l by simp
  finally show ?thesis using c by blast
qed

lemma length_located_keys: "length (located_keys cs) \<le> length cs"
  by (induction cs) (auto simp: located_keys_def split: option.splits)

lemma two_located:
  assumes "coords_of c1 = Some k" and "coords_of c2 = Some k"
  shows "map clicks_loc (calculateGeographicDistribution [c1, c2]) = [2]"
  using assms geographic_points[of "[c1, c2]"] by (simp add: located_keys_def)

lemma none_located:
  assumes "coords_of c1 = None" and "coords_of c2 = None"
  shows "calculateGeographicDistribution [c1, c2] = []"
proof -
  have "map coordinates (calculateGeographicDistribution [c1, c2]) = []"
    using assms geographic_points[of "[c1, c2]"] by (simp add: located_keys_def)
  then show ?thesis by simp
qed

lemmas evaluate_locations =
  calculateGeographicDistribution_def group_location_def visit_def or_null_def or_null_num_def
  Let_def MapLocation.defs

text \<open>
  Claim C4, amended. For every list of events, \<open>calculateGeographicDistribution\<close> returns
  one point for each distinct pair of coordinates among the events that carry a latitude
  and a longitude of which neither is 0, in the order of first occurrence; an event with
  a coordinate that is absent or 0 belongs to no point. The count of a point is the
  number of events at exactly its pair: two events at the same coordinates, neither of
  them 0, make one point with count 2, and two events with an absent or zero coordinate
  make no point. The percentage of a point is \<open>Math.round((count / total) * 100 * 100) /
  100\<close> in double arithmetic, \<open>total\<close> being the number of all events of the list, with or
  without coordinates; it lies within 0.005 + 0.00000000001 of the count's share of all
  events in percent.
\<close>

theorem calculateGeographicDistribution_points:
  "map coordinates (calculateGeographicDistribution clickEvents)
     = map (\<lambda>(la, lo). (lo, la)) (first_seen (located_keys clickEvents))
   \<and> map clicks_loc (calculateGeographicDistribution clickEvents)
     = map (count_list (located_keys clickEvents)) (first_seen (located_keys clickEvents))
   \<and> map percentage (calculateGeographicDistribution clickEvents)
     = map (\<lambda>k. percentage_of (count_list (located_keys clickEvents) k) (length clickEvents))
         (first_seen (located_keys clickEvents))
   \<and> (\<forall>p\<in>set (calculateGeographicDistribution clickEvents).
         \<bar>percentage p - 100 * of_nat (clicks_loc p) / of_nat (length clickEvents)\<bar>
         \<le> 1 / 200 + 1 / 100000000000)
   \<and> (\<forall>c1 c2 la lo. latitude c1 = Some la \<and> longitude c1 = Some lo
         \<and> latitude c2 = Some la \<and> longitude c2 = Some lo \<and> la \<noteq> 0 \<and> lo \<noteq> 0
         \<longrightarrow> map clicks_loc (calculateGeographicDistribution [c1, c2]) = [2])
   \<and> (\<forall>c1 c2. (latitude c1 = None \<or> latitude c1 = Some 0
                 \<or> longitude c1 = None \<or> longitude c1 = Some 0)
         \<and> (latitude c2 = None \<or> latitude c2 = Some 0
                 \<or> longitude c2 = None \<or> longitude c2 = Some 0)
         \<longrightarrow> calculateGeographicDistribution [c1, c2] = [])"
proof -
  have near: "\<bar>percentage p - 100 * of_nat (clicks_loc p) / of_nat (length clickEvents)\<bar>
         \<le> 1 / 200 + 1 / 100000000000"
    if "p \<in> set (calculateGeographicDistribution clickEvents)" for p
  proof -
    from point_of_group[OF that] obtain k
      where k: "clicks_loc p = count_list (located_keys clickEvents) k"
        "percentage p = percentage_of (count_list (located_keys clickEvents) k)
                          (length clickEvents)"
      by blast
    have "count_list (located_keys clickEvents) k \<le> length (located_keys clickEvents)"
      by (rule count_le_length)
    also have "\<dots> \<le> length clickEvents" by (rule length_located_keys)
    finally show ?thesis using percentage_of_near by (simp only: k)
  qed
  have two: "map clicks_loc (calculateGeographicDistribution [c1, c2]) = [2]"
    if "latitude c1 = Some la \<and> longitude c1 = Some lo
         \<and> latitude c2 = Some la \<and> longitude c2 = Some lo \<and> la \<noteq> 0 \<and> lo \<noteq> 0"
    for c1 c2 la lo
    using that by (intro two_located[of _ "(la, lo)"]) (simp_all add: coords_of_def)
  have none: "calculateGeographicDistribution [c1, c2] = []"
    if "(latitude c1 = None \<or> latitude c1 = Some 0
                 \<or> longitude c1 = None \<or> longitude c1 = Some 0)
         \<and> (latitude c2 = None \<or> latitude c2 = Some 0
                 \<or> longitude c2 = None \<or> longitude c2 = Some 0)"
    for c1 c2
    using that by (intro none_located) (auto simp: coords_of_def split: option.splits)
  from geographic_points[of clickEvents] near two none show ?thesis by blast
qed

text \<open>
  Claim C4, as stated, fails when an event has no coordinates: of an event in London
  and one without location, the point of London gets 50 percent, where its share of the
  events that carry coordinates is 100 percent.
\<close>

theorem calculateGeographicDistribution_total_counterexample:
  "map percentage (calculateGeographicDistribution [london, nowhere]) = [50]
   \<and> located_keys [london, nowhere] = [(103 / 2, - 1 / 10)]
   \<and> percentage_of 1 (length (located_keys [london, nowhere])) = 100"
proof -
  have p: "percentage_of (Suc 0) (Suc (Suc 0)) = 50" "percentage_of (Suc 0) (Suc 0) = 100"
    using percentage_of_examples(6,7) by (simp_all add: eval_nat_numeral)
  have a: "map percentage (calculateGeographicDistribution [london, nowhere]) = [50]"
    by (simp add: london_def nowhere_def evaluate_locations p)
  have b: "located_keys [london, nowhere] = [(103 / 2, - 1 / 10)]"
    by (simp add: located_keys_def coords_of_def london_def nowhere_def visit_def)
  have c: "percentage_of 1 (length (located_keys [london, nowhere])) = 100"
    by (simp add: b p)
  from a b c show ?thesis by blast
qed

theorem calculateGeographicDistribution_points_witness:
  "latitude london = Some (103 / 2) \<and> longitude london = Some (- 1 / 10)
   \<and> (103 / 2 :: rat) \<noteq> 0 \<and> (- 1 / 10 :: rat) \<noteq> 0
   \<and> map clicks_loc (calculateGeographicDistribution [london, london]) = [2]
   \<and> map coordinates (calculateGeographicDistribution [london, london]) = [(- 1 / 10, 103 / 2)]
   \<and> map percentage (calculateGeographicDistribution [london, london]) = [100]
   \<and> list_all (\<lambda>p. \<bar>percentage p - 100 * of_nat (clicks_loc p) / of_nat (length [london, london])\<bar>
                     \<le> 1 / 200 + 1 / 100000000000)
        (calculateGeographicDistribution [london, london])
   \<and> latitude equator = Some 0
   \<and> calculateGeographicDistribution [equator, equator] = []"
proof -
  have k: "latitude london = Some (103 / 2)" "longitude london = Some (- 1 / 10)"
    "(103 / 2 :: rat) \<noteq> 0" "(- 1 / 10 :: rat) \<noteq> 0"
    by (simp_all add: london_def visit_def)
  have e: "latitude equator = Some 0" by (simp add: equator_def visit_def)
  note t = calculateGeographicDistribution_points[of "[london, london]"]
  from t k have two: "map clicks_loc (calculateGeographicDistribution [london, london]) = [2]"
    by blast
  from t e have none: "calculateGeographicDistribution [equator, equator] = []"
    by blast
  have p: "percentage_of (Suc (Suc 0)) (Suc (Suc 0)) = 100"
    using percentage_of_examples(8) by (simp add: eval_nat_numeral)
  have rest: "map coordinates (calculateGeographicDistribution [london, london]) = [(- 1 / 10, 103 / 2)]"
    "map percentage (calculateGeographicDistribution [london, london]) = [100]"
    by (simp_all add: london_def evaluate_locations p)
  from t have "\<forall>p\<in>set (calculateGeographicDistribution [london, london]).
         \<bar>percentage p - 100 * of_nat (clicks_loc p) / of_nat (length [london, london])\<bar>
         \<le> 1 / 200 + 1 / 100000000000"
    by blast
  then have near: "list_all (\<lambda>p. \<bar>percentage p - 100 * of_nat (clicks_loc p)
                                        / of_nat (length [london, london])\<bar>
                     \<le> 1 / 200 + 1 / 100000000000)
        (calculateGeographicDistribution [london, london])"
    by (simp only: list_all_iff)
  from k two rest near e none show ?thesis by blast
qed

section \<open>Properties of the analytics route\<close>

lemma summary_counts:
  "generateAnalyticsSummary host now cs = Inr s \<Longrightarrow>
   totalClicks_s s = length cs \<and> uniqueClicks_s s = length (remdups (map ip_address cs))"
  by (auto simp: generateAnalyticsSummary_def Let_def split: sum.splits)

lemma sum_map_set:
  "sum_list (map snd (map_set m k v)) + get_or_0 m k = sum_list (map snd m) + v"
  by (induction m) (auto simp: get_or_0_def)

lemma sum_count_up: "sum_list (map snd (count_up m k)) = sum_list (map snd m) + 1"
  using sum_map_set[of m k "get_or_0 m k + 1"] by (simp add: count_up_def get_or_0_def)

lemma sum_fold_count_up:
  "sum_list (map snd (fold (\<lambda>x m. count_up m (f x)) xs m0)) = sum_list (map snd m0) + length xs"
  by (induction xs arbitrary: m0) (simp_all add: sum_count_up)

lemma hourly_sum: "sum_list (map clicks_h (calculateHourlyDistribution host cs)) = length cs"
proof -
  have "sum_list (map snd (map (\<lambda>i. (i, 0::nat)) [0..<24])) = 0"
    by (simp add: comp_def)
  then show ?thesis
    by (simp add: calculateHourlyDistribution_def comp_def case_prod_unfold
        sum_fold_count_up[simplified comp_def])
qed

lemma weekly_sum: "sum_list (map clicks_d (calculateWeeklyDistribution host cs)) = length cs"
proof -
  have "sum_list (map snd (map (\<lambda>i. (i, 0::nat)) [0..<7])) = 0"
    by (simp add: comp_def)
  then show ?thesis
    by (simp add: calculateWeeklyDistribution_def comp_def case_prod_unfold
        sum_fold_count_up[simplified comp_def])
qed

lemma advancedAnalytics_fields:
  assumes "advancedAnalytics host now days cs = Inr adv"
  shows "calculateClickTrends host now cs (case days of None \<Rightarrow> 0 | Some n \<Rightarrow> n)
         = Inr (clickTrends adv)"
    and "hourlyDistribution adv = calculateHourlyDistribution host cs"
    and "weeklyDistribution adv = calculateWeeklyDistribution host cs"
    and "geographicDistribution adv = calculateGeographicDistribution cs"
    and "topReferrers adv = calculateTopReferrers host cs 10"
    and "deviceStats adv = calculateDeviceStats cs"
    and "generateAnalyticsSummary host now cs = Inr (summary adv)"
  using assms by (auto simp: advancedAnalytics_def split: sum.splits)

lemma advancedAnalytics_returns:
  assumes "calculateClickTrends host now cs (case days of None \<Rightarrow> 0 | Some n \<Rightarrow> n) = Inr trends"
  shows "\<exists>adv. advancedAnalytics host now days cs = Inr adv"
  using summary_average[of host now cs] assms by (auto simp: advancedAnalytics_def)

lemma GET_analytics_advanced:
  assumes "GET_analytics host now d idParam daysParam advancedParam = Ok200 (a, Some adv)"
  shows "\<exists>linkId. parseInt idParam = Some linkId \<and> getLinkAnalytics d linkId = Some a
     \<and> advancedAnalytics host now
           (parseInt (case or_null daysParam of None \<Rightarrow> ''30'' | Some v \<Rightarrow> v)) (recentClicks a)
         = Inr adv"
  using assms
  by (auto simp: GET_analytics_def Let_def split: option.splits if_splits sum.splits)

lemma getLinkAnalytics_recent:
  assumes "getLinkAnalytics d linkId = Some a"
  shows "recentClicks a = take 20 (sort_key (\<lambda>c. - timestamp c)
                                    (filter (\<lambda>c. link_id c = linkId) (clicks_tbl d)))"
    and "totalClicks a = length (filter (\<lambda>c. link_id c = linkId) (clicks_tbl d))"
    and "length (recentClicks a) = min 20 (totalClicks a)"
  using assms by (auto simp: getLinkAnalytics_def Let_def split: option.splits)

text \<open>
  Claim C10. When the analytics route returns advanced figures, each of the seven is
  the value of its function on \<open>recentClicks\<close>, the at most 20 newest click events of the
  link, and not on the link's whole click log: in particular the \<open>totalClicks\<close> of the
  summary is the smaller of 20 and the number of the link's clicks, its \<open>uniqueClicks\<close>
  is at most 20, and the hourly and the weekly distribution each add up to the smaller
  of 20 and the number of clicks.
\<close>

theorem advanced_analytics_recent_only:
  assumes "GET_analytics host now d idParam daysParam advancedParam = Ok200 (a, Some adv)"
  shows "\<exists>linkId. parseInt idParam = Some linkId
     \<and> recentClicks a = take 20 (sort_key (\<lambda>c. - timestamp c)
                                    (filter (\<lambda>c. link_id c = linkId) (clicks_tbl d)))
     \<and> totalClicks a = length (filter (\<lambda>c. link_id c = linkId) (clicks_tbl d))
     \<and> length (recentClicks a) = min 20 (totalClicks a)
     \<and> calculateClickTrends host now (recentClicks a)
             (case parseInt (case or_null daysParam of None \<Rightarrow> ''30'' | Some v \<Rightarrow> v) of
                None \<Rightarrow> 0 | Some n \<Rightarrow> n)
         = Inr (clickTrends adv)
     \<and> hourlyDistribution adv = calculateHourlyDistribution host (recentClicks a)
     \<and> weeklyDistribution adv = calculateWeeklyDistribution host (recentClicks a)
     \<and> geographicDistribution adv = calculateGeographicDistribution (recentClicks a)
     \<and> topReferrers adv = calculateTopReferrers host (recentClicks a) 10
     \<and> deviceStats adv = calculateDeviceStats (recentClicks a)
     \<and> generateAnalyticsSummary host now (recentClicks a) = Inr (summary adv)
     \<and> totalClicks_s (summary adv) = min 20 (totalClicks a)
     \<and> uniqueClicks_s (summary adv) \<le> 20
     \<and> sum_list (map clicks_h (hourlyDistribution adv)) = min 20 (totalClicks a)
     \<and> sum_list (map clicks_d (weeklyDistribution adv)) = min 20 (totalClicks a)"
proof -
  from GET_analytics_advanced[OF assms]
  obtain linkId where i: "parseInt idParam = Some linkId"
    and g: "getLinkAnalytics d linkId = Some a"
    and adv: "advancedAnalytics host now
           (parseInt (case or_null daysParam of None \<Rightarrow> ''30'' | Some v \<Rightarrow> v)) (recentClicks a)
         = Inr adv"
    by blast
  note r = getLinkAnalytics_recent[OF g]
  note f = advancedAnalytics_fields[OF adv]
  note s = summary_counts[OF f(7)]
  have u: "uniqueClicks_s (summary adv) \<le> 20"
  proof -
    have "length (remdups (map ip_address (recentClicks a))) \<le> length (map ip_address (recentClicks a))"
      by (rule length_remdups_leq)
    then show ?thesis using s r(3) by simp
  qed
  have h: "sum_list (map clicks_h (hourlyDistribution adv)) = min 20 (totalClicks a)"
    by (simp add: f(2) hourly_sum r(3))
  have w: "sum_list (map clicks_d (weeklyDistribution adv)) = min 20 (totalClicks a)"
    by (simp add: f(3) weekly_sum r(3))
  have t: "totalClicks_s (summary adv) = min 20 (totalClicks a)"
    using s r(3) by simp
  from i r f(1-7) t u h w show ?thesis by blast
qed


lemma getLinkAnalytics_exists:
  "getLinkById d i = Some l \<Longrightarrow> \<exists>a. getLinkAnalytics d i = Some a"
  by (simp add: getLinkAnalytics_def Let_def)

lemma busy_db_clicks: "length (filter (\<lambda>c. link_id c = 1) (clicks_tbl busy_db)) = 21"
  by (simp add: busy_db_def demo_db_def local_click_def filter_map comp_def)

theorem advanced_analytics_recent_only_witness:
  "\<exists>a adv. GET_analytics any_url_host 30000 busy_db ''1'' None (Some ''true'') = Ok200 (a, Some adv)
     \<and> totalClicks a = 21 \<and> length (recentClicks a) = 20
     \<and> totalClicks_s (summary adv) = 20"
proof -
  have i: "parseInt ''1'' = Some 1"
    using parseInt_dec[of 1] by (simp add: dec.simps digit_char_def)
  have "getLinkById busy_db 1 = Some demo_link"
    by (simp add: getLinkById_def busy_db_def demo_db_def demo_link_def)
  then obtain a where a: "getLinkAnalytics busy_db 1 = Some a"
    using getLinkAnalytics_exists by blast
  note r = getLinkAnalytics_recent[OF a]
  have t: "totalClicks a = 21" using r(2) busy_db_clicks by simp
  have l: "length (recentClicks a) = 20" using r(3) t by simp
  have d: "parseInt ''30'' = Some 30"
    using parseInt_dec[of 30] by (simp add: dec.simps digit_char_def)
  have "\<exists>trends. calculateClickTrends any_url_host 30000 (recentClicks a) 30 = Inr trends"
    by (simp add: calculateClickTrends_eq max_time_def)
  then obtain adv
    where adv: "advancedAnalytics any_url_host 30000 (parseInt ''30'') (recentClicks a) = Inr adv"
    using advancedAnalytics_returns[of any_url_host 30000 "recentClicks a" "parseInt ''30''"]
    by (auto simp: d)
  have g: "GET_analytics any_url_host 30000 busy_db ''1'' None (Some ''true'') = Ok200 (a, Some adv)"
    by (simp add: GET_analytics_def i a l adv or_null_def)
  from advanced_analytics_recent_only[OF g]
  have "totalClicks_s (summary adv) = min 20 (totalClicks a)" by blast
  with t have "totalClicks_s (summary adv) = 20" by simp
  with g t l show ?thesis by blast
qed

end
